theory Spec2Isabelle
  imports Main "HOL-Library.AList"
begin

section \<open>JavaScript values and objects\<close>

text \<open>
  The values that occur in the agent's records and in the data parsed from the
  completion service. A number is represented by the text that \<^verbatim>\<open>String(n)\<close>
  yields for it, the only way the code reads a number. Strings are lists of
  8-bit characters.
\<close>

datatype jsval =
    Null
  | Undefined
  | Bool bool
  | Num string
  | Str string
  | Arr "jsval list"
  | Obj "(string \<times> jsval) list"

datatype error = TypeError | SyntaxError | ProviderError | StoreError

text \<open>
  A plain object is an association list in property order. Reading a property
  that is absent gives \<^verbatim>\<open>undefined\<close>; writing updates in place or appends.
\<close>

type_synonym section_data = "(string \<times> jsval) list"

definition get :: "section_data \<Rightarrow> string \<Rightarrow> jsval" where
  "get sd k = (case map_of sd k of None \<Rightarrow> Undefined | Some v \<Rightarrow> v)"

definition hasOwnProperty :: "section_data \<Rightarrow> string \<Rightarrow> bool" where
  "hasOwnProperty sd k = (map_of sd k \<noteq> None)"

definition put :: "section_data \<Rightarrow> string \<Rightarrow> jsval \<Rightarrow> section_data" where
  "put sd k v = AList.update k v sd"

definition Object_keys :: "section_data \<Rightarrow> string list" where
  "Object_keys sd = map fst sd"

definition Object_values :: "section_data \<Rightarrow> jsval list" where
  "Object_values sd = map snd sd"

section \<open>The agent (lib/agent.js)\<close>

datatype section_name = Personal | Educational | Professional | Family

record collected_data =
  personal :: section_data
  educational :: section_data
  professional :: section_data
  family :: section_data

record agent =
  collectedData :: collected_data
  currentSection :: section_name
  createdAt :: "int option"

text \<open>\<^verbatim>\<open>this.collectedData[section]\<close>, read and written.\<close>

fun sectionOf :: "collected_data \<Rightarrow> section_name \<Rightarrow> section_data" where
  "sectionOf cd Personal = personal cd"
| "sectionOf cd Educational = educational cd"
| "sectionOf cd Professional = professional cd"
| "sectionOf cd Family = family cd"

fun setSection :: "collected_data \<Rightarrow> section_name \<Rightarrow> section_data \<Rightarrow> collected_data" where
  "setSection cd Personal sd = cd\<lparr>personal := sd\<rparr>"
| "setSection cd Educational sd = cd\<lparr>educational := sd\<rparr>"
| "setSection cd Professional sd = cd\<lparr>professional := sd\<rparr>"
| "setSection cd Family sd = cd\<lparr>family := sd\<rparr>"

text \<open>The constructor without initial data; \<open>now\<close> is \<^verbatim>\<open>Date.now()\<close>.\<close>

definition newCollectedData :: collected_data where
  "newCollectedData = \<lparr>
     personal = [
       (''firstName'', Null),
       (''middleName'', Null),
       (''lastName'', Null),
       (''email'', Null),
       (''emailConfirmed'', Bool False),
       (''phoneNumber'', Null),
       (''dateOfBirth'', Null),
       (''dobConfirmed'', Bool False),
       (''nationality'', Null)],
     educational = [
       (''highestQualification'', Null),
       (''university'', Null),
       (''fieldOfStudy'', Null),
       (''graduationYear'', Null)],
     professional = [
       (''currentDesignation'', Null),
       (''company'', Null),
       (''yearsOfExperience'', Null),
       (''annualIncome'', Null),
       (''employmentType'', Null)],
     family = [
       (''maritalStatus'', Null),
       (''dependents'', Null),
       (''spouseName'', Null),
       (''emergencyContact'', Null)]\<rparr>"

definition newAgent :: "int \<Rightarrow> agent" where
  "newAgent now = \<lparr>collectedData = newCollectedData, currentSection = Personal,
     createdAt = Some now\<rparr>"

subsection \<open>moveToNextSection\<close>

definition sections :: "section_name list" where
  "sections = [Personal, Educational, Professional, Family]"

text \<open>\<^verbatim>\<open>Array.prototype.indexOf\<close>: the first index of the element, or -1.\<close>

fun indexOf :: "'a list \<Rightarrow> 'a \<Rightarrow> int" where
  "indexOf [] x = -1"
| "indexOf (y # ys) x =
     (if y = x then 0 else (let i = indexOf ys x in if i < 0 then -1 else i + 1))"

definition moveToNextSection :: "agent \<Rightarrow> bool \<times> agent" where
  "moveToNextSection a =
     (let currentIndex = indexOf sections (currentSection a) in
      if currentIndex < int (length sections) - 1
      then (True, a\<lparr>currentSection := sections ! nat (currentIndex + 1)\<rparr>)
      else (False, a))"

section \<open>Strings and regular expressions\<close>

text \<open>
  Character classes of the regular expressions in the source. \<^verbatim>\<open>\s\<close> is the
  white space of the first 256 code points; \<^verbatim>\<open>\d\<close> is an ASCII digit.
\<close>

definition is_digit :: "char \<Rightarrow> bool" where
  "is_digit c = (let n = (of_char c :: nat) in 48 \<le> n \<and> n \<le> 57)"

definition is_space :: "char \<Rightarrow> bool" where
  "is_space c = (let n = (of_char c :: nat) in (9 \<le> n \<and> n \<le> 13) \<or> n = 32 \<or> n = 160)"

definition is_alpha :: "char \<Rightarrow> bool" where
  "is_alpha c = (let n = (of_char c :: nat) in (65 \<le> n \<and> n \<le> 90) \<or> (97 \<le> n \<and> n \<le> 122))"

text \<open>\<^verbatim>\<open>String.prototype.trim\<close>.\<close>

definition trim :: "string \<Rightarrow> string" where
  "trim s = rev (dropWhile is_space (rev (dropWhile is_space s)))"

text \<open>\<^verbatim>\<open>String.prototype.includes\<close>: the argument occurs as a substring.\<close>

fun str_includes :: "string \<Rightarrow> string \<Rightarrow> bool" where
  "str_includes [] sub = (sub = [])"
| "str_includes (c # cs) sub = (take (length sub) (c # cs) = sub \<or> str_includes cs sub)"

text \<open>\<^verbatim>\<open>String.prototype.split\<close> with a one-character separator.\<close>

fun split :: "char \<Rightarrow> string \<Rightarrow> string list" where
  "split sep [] = [[]]"
| "split sep (c # cs) =
     (if c = sep then [] # split sep cs
      else (case split sep cs of p # ps \<Rightarrow> (c # p) # ps | [] \<Rightarrow> [[c]]))"

text \<open>
  Regular expressions anchored at both ends (\<^verbatim>\<open>^...$\<close>), matched by
  derivatives. \<open>rx_test r s\<close> is \<^verbatim>\<open>/^r$/.test(s)\<close>.
\<close>

datatype rx =
    Eps
  | Cls "char \<Rightarrow> bool"
  | Seq rx rx
  | Alt rx rx
  | Star rx
  | Nothing

fun nullable :: "rx \<Rightarrow> bool" where
  "nullable Eps = True"
| "nullable (Cls P) = False"
| "nullable (Seq r s) = (nullable r \<and> nullable s)"
| "nullable (Alt r s) = (nullable r \<or> nullable s)"
| "nullable (Star r) = True"
| "nullable Nothing = False"

fun deriv :: "char \<Rightarrow> rx \<Rightarrow> rx" where
  "deriv c Eps = Nothing"
| "deriv c (Cls P) = (if P c then Eps else Nothing)"
| "deriv c (Seq r s) =
     (if nullable r then Alt (Seq (deriv c r) s) (deriv c s) else Seq (deriv c r) s)"
| "deriv c (Alt r s) = Alt (deriv c r) (deriv c s)"
| "deriv c (Star r) = Seq (deriv c r) (Star r)"
| "deriv c Nothing = Nothing"

definition rx_test :: "rx \<Rightarrow> string \<Rightarrow> bool" where
  "rx_test r s = nullable (fold deriv s r)"

definition Lit :: "char \<Rightarrow> rx" where
  "Lit c = Cls (\<lambda>x. x = c)"

definition OneOrMore :: "rx \<Rightarrow> rx" where
  "OneOrMore r = Seq r (Star r)"

text \<open>\<open>Rep n r\<close> is \<^verbatim>\<open>r{n}\<close>, \<open>Upto n r\<close> is \<^verbatim>\<open>r{0,n}\<close>, \<open>AtLeast n r\<close> is \<^verbatim>\<open>r{n,}\<close>.\<close>

fun Rep :: "nat \<Rightarrow> rx \<Rightarrow> rx" where
  "Rep 0 r = Eps"
| "Rep (Suc n) r = Seq r (Rep n r)"

fun Upto :: "nat \<Rightarrow> rx \<Rightarrow> rx" where
  "Upto 0 r = Eps"
| "Upto (Suc n) r = Alt Eps (Seq r (Upto n r))"

definition AtLeast :: "nat \<Rightarrow> rx \<Rightarrow> rx" where
  "AtLeast n r = Seq (Rep n r) (Star r)"

text \<open>\<^verbatim>\<open>s.match(/\d+/)\<close>: the first maximal run of digits, if there is a digit.\<close>

definition match_digits :: "string \<Rightarrow> string option" where
  "match_digits s =
     (case dropWhile (\<lambda>c. \<not> is_digit c) s of
        [] \<Rightarrow> None
      | c # cs \<Rightarrow> Some (takeWhile is_digit (c # cs)))"

text \<open>
  \<^verbatim>\<open>s.match(/\{[\s\S]*\}/)\<close>: from the first opening brace to the last closing
  brace after it.
\<close>

definition match_braces :: "string \<Rightarrow> string option" where
  "match_braces s =
     (case dropWhile (\<lambda>c. c \<noteq> CHR ''{'') s of
        [] \<Rightarrow> None
      | c # cs \<Rightarrow>
          (case dropWhile (\<lambda>c. c \<noteq> CHR ''}'') (rev cs) of
             [] \<Rightarrow> None
           | d # ds \<Rightarrow> Some (c # rev (d # ds))))"

text \<open>The value of a string of decimal digits (\<^verbatim>\<open>ToNumber\<close> on such a string).\<close>

definition digits_val :: "string \<Rightarrow> int" where
  "digits_val s = foldl (\<lambda>n c. 10 * n + (int (of_char c) - 48)) 0 s"

section \<open>Dates\<close>

text \<open>
  A \<^verbatim>\<open>Date\<close> is its time value: milliseconds since the epoch, or \<open>None\<close> for
  an invalid date (\<^verbatim>\<open>NaN\<close>). The clock gives \<^verbatim>\<open>Date.now()\<close> and the
  offset of local time from UTC in milliseconds, taken as constant. The
  functions follow the definitions of the ECMAScript specification.
\<close>

record clock =
  now :: int
  tzOffset :: int

definition msPerDay :: int where
  "msPerDay = 86400000"

definition Day :: "int \<Rightarrow> int" where
  "Day t = t div msPerDay"

definition TimeWithinDay :: "int \<Rightarrow> int" where
  "TimeWithinDay t = t mod msPerDay"

definition DaysInYear :: "int \<Rightarrow> int" where
  "DaysInYear y =
     (if y mod 4 \<noteq> 0 then 365
      else if y mod 100 \<noteq> 0 then 366
      else if y mod 400 \<noteq> 0 then 365
      else 366)"

definition DayFromYear :: "int \<Rightarrow> int" where
  "DayFromYear y =
     365 * (y - 1970) + (y - 1969) div 4 - (y - 1901) div 100 + (y - 1601) div 400"

text \<open>
  The year of a day number: the largest \<open>y\<close> whose first day is not after it,
  computed from an estimate that is off by at most one.
\<close>

definition YearFromDay :: "int \<Rightarrow> int" where
  "YearFromDay d =
     (let y = 1970 + (400 * d) div 146097 in
      if d < DayFromYear y then y - 1
      else if DayFromYear (y + 1) \<le> d then y + 1
      else y)"

definition YearFromTime :: "int \<Rightarrow> int" where
  "YearFromTime t = YearFromDay (Day t)"

definition InLeapYear :: "int \<Rightarrow> int" where
  "InLeapYear t = (if DaysInYear (YearFromTime t) = 366 then 1 else 0)"

definition DayWithinYear :: "int \<Rightarrow> int" where
  "DayWithinYear t = Day t - DayFromYear (YearFromTime t)"

text \<open>The day within the year on which month \<open>m\<close> (0 to 11) starts.\<close>

definition monthStart :: "int \<Rightarrow> int \<Rightarrow> int" where
  "monthStart leap m =
     (if m = 0 then 0
      else if m = 1 then 31
      else [59, 90, 120, 151, 181, 212, 243, 273, 304, 334] ! nat (m - 2) + leap)"

definition MonthFromTime :: "int \<Rightarrow> int" where
  "MonthFromTime t =
     (let d = DayWithinYear t; leap = InLeapYear t in
      if d < 31 then 0
      else if d < 59 + leap then 1
      else if d < 90 + leap then 2
      else if d < 120 + leap then 3
      else if d < 151 + leap then 4
      else if d < 181 + leap then 5
      else if d < 212 + leap then 6
      else if d < 243 + leap then 7
      else if d < 273 + leap then 8
      else if d < 304 + leap then 9
      else if d < 334 + leap then 10
      else 11)"

definition DateFromTime :: "int \<Rightarrow> int" where
  "DateFromTime t = DayWithinYear t - monthStart (InLeapYear t) (MonthFromTime t) + 1"

definition MakeDay :: "int \<Rightarrow> int \<Rightarrow> int \<Rightarrow> int" where
  "MakeDay year month date =
     (let ym = year + month div 12;
          mn = month mod 12;
          leap = (if DaysInYear ym = 366 then 1 else 0)
      in DayFromYear ym + monthStart leap mn + date - 1)"

definition MakeDate :: "int \<Rightarrow> int \<Rightarrow> int" where
  "MakeDate day time = day * msPerDay + time"

definition TimeClip :: "int \<Rightarrow> int option" where
  "TimeClip t = (if \<bar>t\<bar> > 8640000000000000 then None else Some t)"

definition LocalTime :: "clock \<Rightarrow> int \<Rightarrow> int" where
  "LocalTime clk t = t + tzOffset clk"

definition UTC :: "clock \<Rightarrow> int \<Rightarrow> int" where
  "UTC clk t = t - tzOffset clk"

text \<open>
  \<^verbatim>\<open>new Date(year, month, day)\<close>: local midnight of the given day, with a year
  from 0 to 99 taken as 1900 + year; month and day beyond their range carry over.
\<close>

definition Date_of_fields :: "clock \<Rightarrow> int \<Rightarrow> int \<Rightarrow> int \<Rightarrow> int option" where
  "Date_of_fields clk year month day =
     (let yr = (if 0 \<le> year \<and> year \<le> 99 then 1900 + year else year) in
      TimeClip (UTC clk (MakeDate (MakeDay yr month day) 0)))"

text \<open>
  \<^verbatim>\<open>new Date(string)\<close> on the two shapes this program passes to it, as Node's
  engine parses them. \<^verbatim>\<open>YYYY-MM-DD\<close> is midnight UTC, with the month in 1 to 12
  and the day in 1 to 31 (a day past the end of its month carries over).
  A slash-separated string of three numbers goes through the legacy parser: month, day,
  year in local time, read as year, month, day when the first number is no day
  of a month, and with a year below 100 moved into 1950 to 2049.
  Every other string is an invalid date here.
\<close>

definition iso_date_rx :: rx where
  "iso_date_rx =
     Seq (Rep 4 (Cls is_digit)) (Seq (Lit CHR ''-'')
       (Seq (Rep 2 (Cls is_digit)) (Seq (Lit CHR ''-'') (Rep 2 (Cls is_digit)))))"

definition slash_date_rx :: rx where
  "slash_date_rx =
     Seq (Seq (Cls is_digit) (Upto 1 (Cls is_digit))) (Seq (Lit CHR ''/'')
       (Seq (Seq (Cls is_digit) (Upto 1 (Cls is_digit))) (Seq (Lit CHR ''/'')
         (Rep 4 (Cls is_digit)))))"

definition dash_date_rx :: rx where
  "dash_date_rx =
     Seq (Seq (Cls is_digit) (Upto 1 (Cls is_digit))) (Seq (Lit CHR ''-'')
       (Seq (Seq (Cls is_digit) (Upto 1 (Cls is_digit))) (Seq (Lit CHR ''-'')
         (Rep 4 (Cls is_digit)))))"

definition IsMonth :: "int \<Rightarrow> bool" where
  "IsMonth x = (1 \<le> x \<and> x \<le> 12)"

definition IsDay :: "int \<Rightarrow> bool" where
  "IsDay x = (1 \<le> x \<and> x \<le> 31)"

definition Date_parse :: "clock \<Rightarrow> string \<Rightarrow> int option" where
  "Date_parse clk s =
     (if rx_test iso_date_rx s then
        (let year = digits_val (take 4 s);
             month = digits_val (take 2 (drop 5 s));
             day = digits_val (take 2 (drop 8 s))
         in if IsMonth month \<and> IsDay day
            then TimeClip (MakeDate (MakeDay year (month - 1) day) 0)
            else None)
      else if rx_test slash_date_rx s then
        (case map digits_val (split CHR ''/'' s) of
           c0 # c1 # c2 # _ \<Rightarrow>
             (let (year, month, day) = (if IsDay c0 then (c2, c0, c1) else (c0, c1, c2));
                  yr = (if 0 \<le> year \<and> year \<le> 49 then year + 2000
                        else if 50 \<le> year \<and> year \<le> 99 then year + 1900
                        else year)
              in if IsMonth month \<and> IsDay day
                 then TimeClip (UTC clk (MakeDate (MakeDay yr (month - 1) day) 0))
                 else None)
         | _ \<Rightarrow> None)
      else None)"

text \<open>\<^verbatim>\<open>d = new Date(); d.setHours(0, 0, 0, 0)\<close>\<close>

definition today_midnight :: "clock \<Rightarrow> int option" where
  "today_midnight clk =
     (let t = LocalTime clk (now clk) in
      TimeClip (UTC clk (MakeDate (Day t) 0)))"

text \<open>\<^verbatim>\<open>d = new Date(); d.setFullYear(d.getFullYear() - n)\<close>\<close>

definition years_ago :: "clock \<Rightarrow> int \<Rightarrow> int option" where
  "years_ago clk n =
     (let t = LocalTime clk (now clk);
          newDate = MakeDay (YearFromTime t - n) (MonthFromTime t) (DateFromTime t)
      in TimeClip (UTC clk (MakeDate newDate (TimeWithinDay t))))"

section \<open>Validators (lib/validators.js)\<close>

definition isValidEmail :: "string \<Rightarrow> bool" where
  "isValidEmail email =
     (let emailRegex =
        Seq (OneOrMore (Cls (\<lambda>c. \<not> (is_space c \<or> c = CHR ''@'')))) (Seq (Lit CHR ''@'')
          (Seq (OneOrMore (Cls (\<lambda>c. \<not> (is_space c \<or> c = CHR ''@'')))) (Seq (Lit CHR ''.'')
            (OneOrMore (Cls (\<lambda>c. \<not> (is_space c \<or> c = CHR ''@'')))))))
      in rx_test emailRegex email)"

text \<open>
  A relational comparison with an invalid date is false, so an invalid
  \<open>today\<close> or \<open>eighteenYearsAgo\<close> lets the date through its check.
\<close>

definition date_ge :: "int \<Rightarrow> int option \<Rightarrow> bool" where
  "date_ge d other = (case other of None \<Rightarrow> False | Some t \<Rightarrow> d \<ge> t)"

definition date_gt :: "int \<Rightarrow> int option \<Rightarrow> bool" where
  "date_gt d other = (case other of None \<Rightarrow> False | Some t \<Rightarrow> d > t)"

definition check_date :: "clock \<Rightarrow> int option \<Rightarrow> bool" where
  "check_date clk date =
     (case date of
        None \<Rightarrow> False
      | Some d \<Rightarrow>
          (let today = today_midnight clk in
           if date_ge d today then False
           else
             (let eighteenYearsAgo = years_ago clk 18 in
              if date_gt d eighteenYearsAgo then False
              else True)))"

definition isValidDateOfBirth :: "clock \<Rightarrow> string \<Rightarrow> bool" where
  "isValidDateOfBirth clk dateString =
     (if rx_test iso_date_rx dateString then
        check_date clk (Date_parse clk dateString)
      else if rx_test slash_date_rx dateString then
        (case split CHR ''/'' dateString of
           day # month # year # _ \<Rightarrow>
             check_date clk
               (Date_of_fields clk (digits_val year) (digits_val month - 1) (digits_val day))
         | _ \<Rightarrow> False)
      else if rx_test dash_date_rx dateString then
        (case split CHR ''-'' dateString of
           day # month # year # _ \<Rightarrow>
             check_date clk
               (Date_of_fields clk (digits_val year) (digits_val month - 1) (digits_val day))
         | _ \<Rightarrow> False)
      else if rx_test slash_date_rx dateString then
        check_date clk (Date_parse clk dateString)
      else False)"

text \<open>The function with its fourth branch (\<^verbatim>\<open>MM/DD/YYYY\<close>) removed.\<close>

definition isValidDateOfBirth_without_mdy :: "clock \<Rightarrow> string \<Rightarrow> bool" where
  "isValidDateOfBirth_without_mdy clk dateString =
     (if rx_test iso_date_rx dateString then
        check_date clk (Date_parse clk dateString)
      else if rx_test slash_date_rx dateString then
        (case split CHR ''/'' dateString of
           day # month # year # _ \<Rightarrow>
             check_date clk
               (Date_of_fields clk (digits_val year) (digits_val month - 1) (digits_val day))
         | _ \<Rightarrow> False)
      else if rx_test dash_date_rx dateString then
        (case split CHR ''-'' dateString of
           day # month # year # _ \<Rightarrow>
             check_date clk
               (Date_of_fields clk (digits_val year) (digits_val month - 1) (digits_val day))
         | _ \<Rightarrow> False)
      else False)"

definition isValidName :: "string \<Rightarrow> bool" where
  "isValidName name =
     (if name = [] then False
      else
        (let nameRegex =
           AtLeast 2 (Cls (\<lambda>c. is_alpha c \<or> is_space c \<or> c = CHR ''-'' \<or> c = CHR 0x27))
         in rx_test nameRegex (trim name)))"

definition isValidPhoneNumber :: "string \<Rightarrow> bool" where
  "isValidPhoneNumber phone =
     (let cleaned = filter (\<lambda>c. \<not> (is_space c \<or> c = CHR ''-'' \<or> c = CHR ''+''
                                   \<or> c = CHR ''('' \<or> c = CHR '')'')) phone
      in rx_test (AtLeast 10 (Cls is_digit)) cleaned)"

section \<open>Agent operations (lib/agent.js)\<close>

subsection \<open>isCurrentSectionComplete and getMissingFields\<close>

definition isCurrentSectionComplete :: "agent \<Rightarrow> bool" where
  "isCurrentSectionComplete a =
     (let sectionData = sectionOf (collectedData a) (currentSection a) in
      if currentSection a = Personal then
        get sectionData ''firstName'' \<noteq> Null \<and>
        get sectionData ''lastName'' \<noteq> Null \<and>
        get sectionData ''email'' \<noteq> Null \<and>
        get sectionData ''emailConfirmed'' = Bool True \<and>
        get sectionData ''phoneNumber'' \<noteq> Null \<and>
        get sectionData ''dateOfBirth'' \<noteq> Null \<and>
        get sectionData ''dobConfirmed'' = Bool True \<and>
        get sectionData ''nationality'' \<noteq> Null
      else
        list_all (\<lambda>(key, value).
          if str_includes key ''Confirmed'' then True else value \<noteq> Null) sectionData)"

definition getMissingFields :: "agent \<Rightarrow> string list" where
  "getMissingFields a =
     (let sectionData = sectionOf (collectedData a) (currentSection a) in
      filter (\<lambda>key. get sectionData key = Null) (Object_keys sectionData))"

subsection \<open>validateAndStoreExtractedData\<close>

text \<open>
  \<^verbatim>\<open>String(value)\<close>. An array is the join of its elements, null and undefined
  elements as the empty string. An object goes through its \<^verbatim>\<open>toString\<close>: the
  inherited one gives a fixed text; an own property of that name, which in parsed
  data is never a function, leaves no way to a primitive value and the conversion
  throws a type error.
\<close>

fun join_comma :: "string list \<Rightarrow> string" where
  "join_comma [] = []"
| "join_comma [x] = x"
| "join_comma (x # y # ys) = x @ '','' @ join_comma (y # ys)"

fun js_String :: "jsval \<Rightarrow> error + string"
  and js_join :: "jsval list \<Rightarrow> error + string list" where
  "js_String Null = Inr ''null''"
| "js_String Undefined = Inr ''undefined''"
| "js_String (Bool b) = Inr (if b then ''true'' else ''false'')"
| "js_String (Num s) = Inr s"
| "js_String (Str s) = Inr s"
| "js_String (Arr xs) =
     (case js_join xs of Inl e \<Rightarrow> Inl e | Inr parts \<Rightarrow> Inr (join_comma parts))"
| "js_String (Obj kvs) =
     (if hasOwnProperty kvs ''toString'' then Inl TypeError else Inr ''[object Object]'')"
| "js_join [] = Inr []"
| "js_join (x # xs) =
     (case (if x = Null \<or> x = Undefined then Inr [] else js_String x) of
        Inl e \<Rightarrow> Inl e
      | Inr part \<Rightarrow>
          (case js_join xs of Inl e \<Rightarrow> Inl e | Inr parts \<Rightarrow> Inr (part # parts)))"

text \<open>
  \<^verbatim>\<open>Object.entries(value)\<close>: a type error on null and undefined, the indexed
  elements of an array or of a string, nothing for a number or a boolean.
\<close>

fun show_nat :: "nat \<Rightarrow> string" where
  "show_nat n =
     (if n < 10 then [char_of (48 + n)]
      else show_nat (n div 10) @ [char_of (48 + n mod 10)])"

declare show_nat.simps [simp del]

definition indexed :: "'a list \<Rightarrow> (string \<times> 'a) list" where
  "indexed xs = zip (map show_nat [0..<length xs]) xs"

fun Object_entries :: "jsval \<Rightarrow> error + (string \<times> jsval) list" where
  "Object_entries Null = Inl TypeError"
| "Object_entries Undefined = Inl TypeError"
| "Object_entries (Bool b) = Inr []"
| "Object_entries (Num s) = Inr []"
| "Object_entries (Str s) = Inr (indexed (map (\<lambda>c. Str [c]) s))"
| "Object_entries (Arr xs) = Inr (indexed xs)"
| "Object_entries (Obj kvs) = Inr kvs"

text \<open>
  \<^verbatim>\<open>isNaN(s)\<close> for a trimmed string without a digit, where the code calls it:
  such a string converts to a number only when it is empty or an infinity.
\<close>

definition isNaN_digitless :: "string \<Rightarrow> bool" where
  "isNaN_digitless s = (s \<notin> set [[], ''Infinity'', ''+Infinity'', ''-Infinity''])"

text \<open>
  The callback of the \<^verbatim>\<open>forEach\<close>, on the current section's object: first
  the \<^verbatim>\<open>switch\<close> on the key, with the trimmed text of the value, then the
  callback with its three early returns and the conversion of the value, which
  can throw.
\<close>

definition storeValue :: "clock \<Rightarrow> section_data \<Rightarrow> string \<Rightarrow> string \<Rightarrow> section_data" where
  "storeValue clk sectionData key value =
     (if key = ''email'' then
        (if isValidEmail value
         then put (put sectionData key (Str value)) ''emailConfirmed'' (Bool True)
         else sectionData)
      else if key = ''phoneNumber'' then
        (if isValidPhoneNumber value then put sectionData key (Str value)
         else sectionData)
      else if key = ''dateOfBirth'' then
        (if isValidDateOfBirth clk value
         then put (put sectionData key (Str value)) ''dobConfirmed'' (Bool True)
         else sectionData)
      else if key = ''firstName'' \<or> key = ''lastName'' \<or> key = ''middleName''
              \<or> key = ''spouseName'' then
        (if isValidName value then put sectionData key (Str value) else sectionData)
      else if key = ''emergencyContact'' then
        (if length value \<ge> 3 then put sectionData key (Str value) else sectionData)
      else if key = ''yearsOfExperience'' then
        (case match_digits value of
           Some numMatch \<Rightarrow> put sectionData key (Str numMatch)
         | None \<Rightarrow>
             if \<not> isNaN_digitless value then put sectionData key (Str value)
             else sectionData)
      else
        (if value \<noteq> [] \<and> length value > 0 then put sectionData key (Str value)
         else sectionData))"

definition storeEntry ::
    "clock \<Rightarrow> section_data \<Rightarrow> string \<times> jsval \<Rightarrow> error + section_data" where
  "storeEntry clk sectionData kv =
     (case kv of (key, value) \<Rightarrow>
        if value = Null \<or> value = Undefined then Inr sectionData
        else if \<not> hasOwnProperty sectionData key then Inr sectionData
        else if get sectionData key \<noteq> Null then Inr sectionData
        else
          (case js_String value of
             Inl e \<Rightarrow> Inl e
           | Inr text \<Rightarrow> Inr (storeValue clk sectionData key (trim text))))"

text \<open>
  The \<^verbatim>\<open>forEach\<close> loop. The callback writes into the section's object, so a
  throw at one entry ends the loop with the writes of the entries before it in
  place: the loop gives the object as it then is, and the error if there is one.
\<close>

fun forEach_store ::
    "clock \<Rightarrow> section_data \<Rightarrow> (string \<times> jsval) list \<Rightarrow> section_data \<times> error option" where
  "forEach_store clk sectionData [] = (sectionData, None)"
| "forEach_store clk sectionData (kv # kvs) =
     (case storeEntry clk sectionData kv of
        Inl e \<Rightarrow> (sectionData, Some e)
      | Inr sectionData' \<Rightarrow> forEach_store clk sectionData' kvs)"

text \<open>
  The method gives the agent after the call, and the error that the call throws,
  if any.
\<close>

definition validateAndStoreExtractedData ::
    "clock \<Rightarrow> agent \<Rightarrow> jsval \<Rightarrow> agent \<times> error option" where
  "validateAndStoreExtractedData clk a extractedData =
     (let sectionData = sectionOf (collectedData a) (currentSection a) in
      case Object_entries extractedData of
        Inl e \<Rightarrow> (a, Some e)
      | Inr entries \<Rightarrow>
          (case forEach_store clk sectionData entries of
             (sectionData', thrown) \<Rightarrow>
               (a\<lparr>collectedData :=
                    setSection (collectedData a) (currentSection a) sectionData'\<rparr>,
                thrown)))"

subsection \<open>updateCollectedDataWithLLM\<close>

text \<open>
  What the call of the completion service gives: it throws, or its response
  has no message text to trim, or it carries a text. \<^verbatim>\<open>JSON.parse\<close> is a
  parameter \<open>parse\<close>, with \<open>None\<close> for a syntax error.
\<close>

datatype completion = CallThrows | NoContent | Content string

text \<open>
  The body of the \<^verbatim>\<open>try\<close> block: the agent after it, and the error it
  throws, if any.
\<close>

definition extractAndStore ::
    "(string \<Rightarrow> jsval option) \<Rightarrow> clock \<Rightarrow> agent \<Rightarrow> completion \<Rightarrow> agent \<times> error option" where
  "extractAndStore parse clk a response =
     (case response of
        CallThrows \<Rightarrow> (a, Some ProviderError)
      | NoContent \<Rightarrow> (a, Some TypeError)
      | Content text \<Rightarrow>
          (let extractedText = trim text in
           case parse extractedText of
             Some extractedData \<Rightarrow> validateAndStoreExtractedData clk a extractedData
           | None \<Rightarrow>
               (case match_braces extractedText of
                  None \<Rightarrow> validateAndStoreExtractedData clk a (Obj [])
                | Some jsonMatch \<Rightarrow>
                    (case parse jsonMatch of
                       None \<Rightarrow> (a, Some SyntaxError)
                     | Some extractedData \<Rightarrow>
                         validateAndStoreExtractedData clk a extractedData))))"

text \<open>
  The method: nothing is asked when no field is missing; an error of the
  \<^verbatim>\<open>try\<close> block is caught and logged, and the method returns, with the agent
  as the block left it.
\<close>

definition updateCollectedDataWithLLM ::
    "(string \<Rightarrow> jsval option) \<Rightarrow> clock \<Rightarrow> agent \<Rightarrow> completion \<Rightarrow> error + agent" where
  "updateCollectedDataWithLLM parse clk a response =
     (if length (getMissingFields a) = 0 then Inr a
      else
        (case extractAndStore parse clk a response of
           (a', None) \<Rightarrow> Inr a'
         | (a', Some error) \<Rightarrow> Inr a'))"

subsection \<open>getCompletionPercentage\<close>

text \<open>
  \<^verbatim>\<open>Math.round((completedFields / totalFields) * 100)\<close>, to the nearest integer
  with a half rounded up; \<open>None\<close> is \<^verbatim>\<open>NaN\<close>, the result without any field. The
  quotient is taken exactly: with the 22 fields of the constructor no quotient
  lies at a half, where the rounding of the floating-point division could differ.
\<close>

definition getCompletionPercentage :: "agent \<Rightarrow> int option" where
  "getCompletionPercentage a =
     (let (totalFields, completedFields) =
        fold (\<lambda>section (totalFields, completedFields).
          fold (\<lambda>value (totalFields, completedFields).
                 (totalFields + 1,
                  if value \<noteq> Null then completedFields + 1 else completedFields))
               (Object_values (sectionOf (collectedData a) section))
               (totalFields, completedFields))
          sections (0::int, 0::int)
      in if totalFields = 0 then None
         else Some ((200 * completedFields + totalFields) div (2 * totalFields)))"

subsection \<open>Sequences of operations on one agent\<close>

text \<open>
  The three mutating methods as operations on the agent object: each gives the
  object as it is after the call, also after a call of
  validateAndStoreExtractedData that throws.
\<close>

datatype agent_op =
    ValidateAndStore clock jsval
  | UpdateWithLLM "string \<Rightarrow> jsval option" clock completion
  | MoveToNextSection

fun apply_op :: "agent \<Rightarrow> agent_op \<Rightarrow> agent" where
  "apply_op a (ValidateAndStore clk extractedData) =
     fst (validateAndStoreExtractedData clk a extractedData)"
| "apply_op a (UpdateWithLLM parse clk response) =
     (case updateCollectedDataWithLLM parse clk a response of
        Inr a' \<Rightarrow> a' | Inl e \<Rightarrow> a)"
| "apply_op a MoveToNextSection = snd (moveToNextSection a)"

definition run :: "agent \<Rightarrow> agent_op list \<Rightarrow> agent" where
  "run a ops = foldl apply_op a ops"

text \<open>
  The data model's fixed field set: every section has the property names, in
  order, that the constructor gives it.
\<close>

definition schema_keys :: "agent \<Rightarrow> bool" where
  "schema_keys a =
     list_all (\<lambda>section.
        Object_keys (sectionOf (collectedData a) section) =
        Object_keys (sectionOf newCollectedData section)) sections"

text \<open>The number of values of a section other than null.\<close>

definition countNonNull :: "section_data \<Rightarrow> nat" where
  "countNonNull sd = length (filter (\<lambda>value. value \<noteq> Null) (Object_values sd))"

section \<open>Session store and handlers (lib/dynamodb.js, handlers)\<close>

text \<open>
  The table is a map from session identifier to item; a call on the table
  throws when the service is not available.
\<close>

record session =
  sessionId :: string
  updatedAt :: int
  expiresAt :: int
  item_collectedData :: collected_data
  item_currentSection :: section_name
  completionPercentage :: "int option"

record dynamodb =
  items :: "string \<rightharpoonup> session"
  available :: bool

definition saveChatSession :: "clock \<Rightarrow> dynamodb \<Rightarrow> string \<Rightarrow> agent \<Rightarrow> error + dynamodb" where
  "saveChatSession clk db sid agent =
     (let expiresAt = now clk div 1000 + 1 * 24 * 60 * 60;
          Item = \<lparr>sessionId = sid, updatedAt = now clk, expiresAt = expiresAt,
                   item_collectedData = collectedData agent,
                   item_currentSection = currentSection agent,
                   completionPercentage = getCompletionPercentage agent\<rparr>
      in if available db then Inr (db\<lparr>items := (items db)(sid \<mapsto> Item)\<rparr>)
         else Inl StoreError)"

definition getChatSession :: "dynamodb \<Rightarrow> string \<Rightarrow> error + session option" where
  "getChatSession db sid = (if available db then Inr (items db sid) else Inl StoreError)"

definition deleteChatSession :: "dynamodb \<Rightarrow> string \<Rightarrow> error + dynamodb" where
  "deleteChatSession db sid =
     (if available db then Inr (db\<lparr>items := (items db)(sid := None)\<rparr>)
      else Inl StoreError)"

text \<open>Responses: the status code and the fields of the JSON body.\<close>

datatype body =
    ErrorBody string
  | ChatBody string string collected_data int section_name
  | StateBody string collected_data section_name "int option" int

record response =
  statusCode :: nat
  body :: body

definition successResponse :: "nat \<Rightarrow> body \<Rightarrow> response" where
  "successResponse code data = \<lparr>statusCode = (if code = 0 then 200 else code), body = data\<rparr>"

definition errorResponse :: "nat \<Rightarrow> string \<Rightarrow> response" where
  "errorResponse code message =
     \<lparr>statusCode = (if code = 0 then 500 else code), body = ErrorBody message\<rparr>"

definition welcomeMessage :: string where
  "welcomeMessage = ''Welcome to the Financial Application Portal!''"

text \<open>
  handlers/resetChat.js. The event carries the path parameter \<open>sessionId\<close>,
  absent or a string. The handler returns the table it leaves and its response.
\<close>

definition resetChat :: "clock \<Rightarrow> dynamodb \<Rightarrow> string option \<Rightarrow> dynamodb \<times> response" where
  "resetChat clk db event =
     (case event of
        None \<Rightarrow> (db, errorResponse 400 ''Missing sessionId'')
      | Some sid \<Rightarrow>
          if sid = [] then (db, errorResponse 400 ''Missing sessionId'')
          else
            (case deleteChatSession db sid of
               Inl e \<Rightarrow> (db, errorResponse 500 ''Failed to reset chat session'')
             | Inr db1 \<Rightarrow>
                 (let agent = newAgent (now clk) in
                  case saveChatSession clk db1 sid agent of
                    Inl e \<Rightarrow> (db1, errorResponse 500 ''Failed to reset chat session'')
                  | Inr db2 \<Rightarrow>
                      (db2, successResponse 200
                         (ChatBody sid welcomeMessage (collectedData agent) 0 Personal)))))"

text \<open>handlers/getState.js\<close>

definition getState :: "dynamodb \<Rightarrow> string option \<Rightarrow> response" where
  "getState db event =
     (case event of
        None \<Rightarrow> errorResponse 400 ''Missing sessionId''
      | Some sid \<Rightarrow>
          if sid = [] then errorResponse 400 ''Missing sessionId''
          else
            (case getChatSession db sid of
               Inl e \<Rightarrow> errorResponse 500 ''Failed to fetch session state''
             | Inr None \<Rightarrow> errorResponse 404 ''Session not found''
             | Inr (Some session) \<Rightarrow>
                 successResponse 200
                   (StateBody sid (item_collectedData session) (item_currentSection session)
                      (completionPercentage session) (updatedAt session))))"

section \<open>Notions used in the proofs\<close>

text \<open>The keys that the \<^verbatim>\<open>switch\<close> names.\<close>

definition named_keys :: "string list" where
  "named_keys = [''email'', ''phoneNumber'', ''dateOfBirth'', ''firstName'', ''lastName'',
     ''middleName'', ''spouseName'', ''emergencyContact'', ''yearsOfExperience'']"

text \<open>
  What one entry can do to the section: nothing, or store a string under its
  key, with the confirmation flag when the key is the email or the date of birth.
\<close>

definition entry_effect :: "section_data \<Rightarrow> string \<Rightarrow> section_data \<Rightarrow> bool" where
  "entry_effect sd k sd' =
     (sd' = sd \<or>
      (\<exists>s. sd' =
         (if k = ''email'' then put (put sd k (Str s)) ''emailConfirmed'' (Bool True)
          else if k = ''dateOfBirth'' then put (put sd k (Str s)) ''dobConfirmed'' (Bool True)
          else put sd k (Str s))))"

text \<open>A section with an email or a date of birth has the flag for it.\<close>

definition flags_present :: "section_data \<Rightarrow> bool" where
  "flags_present sd =
     ((hasOwnProperty sd ''email'' \<longrightarrow> hasOwnProperty sd ''emailConfirmed'') \<and>
      (hasOwnProperty sd ''dateOfBirth'' \<longrightarrow> hasOwnProperty sd ''dobConfirmed''))"

text \<open>The two counters of getCompletionPercentage after its loops.\<close>

definition totalFields :: "agent \<Rightarrow> nat" where
  "totalFields a = (\<Sum>section \<leftarrow> sections. length (sectionOf (collectedData a) section))"

definition completedFields :: "agent \<Rightarrow> nat" where
  "completedFields a = (\<Sum>section \<leftarrow> sections. countNonNull (sectionOf (collectedData a) section))"

text \<open>
  In the personal section a stored email or date of birth has its flag set, and
  the flags are not null.
\<close>

definition flags_follow :: "section_data \<Rightarrow> bool" where
  "flags_follow sd =
     ((get sd ''email'' \<noteq> Null \<longrightarrow> get sd ''emailConfirmed'' = Bool True) \<and>
      (get sd ''dateOfBirth'' \<noteq> Null \<longrightarrow> get sd ''dobConfirmed'' = Bool True) \<and>
      get sd ''emailConfirmed'' \<noteq> Null \<and> get sd ''dobConfirmed'' \<noteq> Null)"

text \<open>
  A JSON object is parsed from the text of a completion: by the first
  \<^verbatim>\<open>JSON.parse\<close>, or, when that throws, by the second one on the text between
  the braces.
\<close>

fun is_Obj :: "jsval \<Rightarrow> bool" where
  "is_Obj (Obj kvs) = True"
| "is_Obj v = False"

definition parses_to_object :: "(string \<Rightarrow> jsval option) \<Rightarrow> string \<Rightarrow> bool" where
  "parses_to_object parse content =
     (let extractedText = trim content in
      case parse extractedText of
        Some extractedData \<Rightarrow> is_Obj extractedData
      | None \<Rightarrow>
          (case match_braces extractedText of
             None \<Rightarrow> False
           | Some jsonMatch \<Rightarrow>
               (case parse jsonMatch of
                  None \<Rightarrow> False
                | Some extractedData \<Rightarrow> is_Obj extractedData)))"

section \<open>Section progression\<close>

lemma moveToNextSection_cases:
  "moveToNextSection a =
     (case currentSection a of
        Personal \<Rightarrow> (True, a\<lparr>currentSection := Educational\<rparr>)
      | Educational \<Rightarrow> (True, a\<lparr>currentSection := Professional\<rparr>)
      | Professional \<Rightarrow> (True, a\<lparr>currentSection := Family\<rparr>)
      | Family \<Rightarrow> (False, a))"
  by (cases "currentSection a") (simp_all add: moveToNextSection_def sections_def)

text \<open>
  C8. Starting in the personal section, four successive calls of
  moveToNextSection return true, true, true, false, and the section after the
  fourth call is family.
\<close>

theorem C8_moveToNextSection_four_calls:
  "currentSection a = Personal \<Longrightarrow>
     (let (r1, a1) = moveToNextSection a;
          (r2, a2) = moveToNextSection a1;
          (r3, a3) = moveToNextSection a2;
          (r4, a4) = moveToNextSection a3
      in [r1, r2, r3, r4] = [True, True, True, False] \<and> currentSection a4 = Family)"
  by (simp add: moveToNextSection_cases)

theorem C8_moveToNextSection_four_calls_witness:
  "currentSection (newAgent 0) = Personal \<and>
     (let (r1, a1) = moveToNextSection (newAgent 0);
          (r2, a2) = moveToNextSection a1;
          (r3, a3) = moveToNextSection a2;
          (r4, a4) = moveToNextSection a3
      in [r1, r2, r3, r4] = [True, True, True, False] \<and> currentSection a4 = Family)"
  using C8_moveToNextSection_four_calls [of "newAgent 0"] by (simp add: newAgent_def)

section \<open>Objects and the entry callback\<close>

lemma get_put: "get (put sd k v) k' = (if k' = k then v else get sd k')"
  by (simp add: get_def put_def update_conv')

lemma hasOwnProperty_put: "hasOwnProperty (put sd k v) k' = (k' = k \<or> hasOwnProperty sd k')"
  by (simp add: hasOwnProperty_def put_def update_conv')

lemma hasOwnProperty_keys: "hasOwnProperty sd k = (k \<in> set (Object_keys sd))"
  by (simp add: hasOwnProperty_def Object_keys_def map_of_eq_None_iff)

lemma Object_keys_put:
  "Object_keys (put sd k v) = (if hasOwnProperty sd k then Object_keys sd else Object_keys sd @ [k])"
  by (simp add: hasOwnProperty_keys) (simp add: Object_keys_def put_def update_keys)

lemma countNonNull_put: "v \<noteq> Null \<Longrightarrow> countNonNull sd \<le> countNonNull (put sd k v)"
  by (induction sd) (auto simp: countNonNull_def Object_values_def put_def)


lemma sv_email: "storeValue clk sd ''email'' value =
  (if isValidEmail value then put (put sd ''email'' (Str value)) ''emailConfirmed'' (Bool True) else sd)"
  by (simp add: storeValue_def)

lemma sv_dob: "storeValue clk sd ''dateOfBirth'' value =
  (if isValidDateOfBirth clk value then put (put sd ''dateOfBirth'' (Str value)) ''dobConfirmed'' (Bool True) else sd)"
  by (simp add: storeValue_def)

lemma sv_phone: "storeValue clk sd ''phoneNumber'' value =
  (if isValidPhoneNumber value then put sd ''phoneNumber'' (Str value) else sd)"
  by (simp add: storeValue_def)

lemma sv_name: "k \<in> set [''firstName'', ''lastName'', ''middleName'', ''spouseName''] \<Longrightarrow>
  storeValue clk sd k value = (if isValidName value then put sd k (Str value) else sd)"
  by (auto simp add: storeValue_def)

lemma sv_emergency: "storeValue clk sd ''emergencyContact'' value =
  (if length value \<ge> 3 then put sd ''emergencyContact'' (Str value) else sd)"
  by (simp add: storeValue_def)

lemma sv_years: "storeValue clk sd ''yearsOfExperience'' value =
  (case match_digits value of
     Some numMatch \<Rightarrow> put sd ''yearsOfExperience'' (Str numMatch)
   | None \<Rightarrow> if \<not> isNaN_digitless value then put sd ''yearsOfExperience'' (Str value) else sd)"
  by (simp add: storeValue_def)

lemma sv_default: "k \<notin> set named_keys \<Longrightarrow>
  storeValue clk sd k value = (if value \<noteq> [] then put sd k (Str value) else sd)"
  unfolding storeValue_def named_keys_def by simp

lemma named_keys_cases:
  "k \<in> set named_keys \<Longrightarrow> k = ''email'' \<or> k = ''dateOfBirth'' \<or> k = ''phoneNumber''
    \<or> k \<in> set [''firstName'', ''lastName'', ''middleName'', ''spouseName'']
    \<or> k = ''emergencyContact'' \<or> k = ''yearsOfExperience''"
  unfolding named_keys_def by (simp only: list.set insert_iff empty_iff) fast

lemma entry_effect_same: "entry_effect sd k sd"
  by (simp add: entry_effect_def)

lemma entry_effect_email:
  "entry_effect sd ''email'' (put (put sd ''email'' (Str s)) ''emailConfirmed'' (Bool True))"
  unfolding entry_effect_def by (rule disjI2, rule exI [of _ s]) simp

lemma entry_effect_dob:
  "entry_effect sd ''dateOfBirth'' (put (put sd ''dateOfBirth'' (Str s)) ''dobConfirmed'' (Bool True))"
  unfolding entry_effect_def by (rule disjI2, rule exI [of _ s]) simp

lemma entry_effect_put:
  "k \<noteq> ''email'' \<Longrightarrow> k \<noteq> ''dateOfBirth'' \<Longrightarrow> entry_effect sd k (put sd k (Str s))"
  unfolding entry_effect_def by (rule disjI2, rule exI [of _ s]) simp

lemma storeValue_effect: "entry_effect sd k (storeValue clk sd k value)"
proof (cases "k \<in> set named_keys")
  case False
  then have "k \<noteq> ''email''" "k \<noteq> ''dateOfBirth''" by (auto simp: named_keys_def)
  with False show ?thesis
    by (simp add: sv_default entry_effect_same entry_effect_put)
next
  case True
  from named_keys_cases [OF True] show ?thesis
  proof (elim disjE)
    assume "k = ''email''"
    then show ?thesis by (simp add: sv_email entry_effect_same entry_effect_email)
  next
    assume "k = ''dateOfBirth''"
    then show ?thesis by (simp add: sv_dob entry_effect_same entry_effect_dob)
  next
    assume "k = ''phoneNumber''"
    then show ?thesis by (simp add: sv_phone entry_effect_same entry_effect_put)
  next
    assume k: "k \<in> set [''firstName'', ''lastName'', ''middleName'', ''spouseName'']"
    then have "k \<noteq> ''email''" "k \<noteq> ''dateOfBirth''" by auto
    then show ?thesis by (simp add: sv_name [OF k] entry_effect_same entry_effect_put)
  next
    assume "k = ''emergencyContact''"
    then show ?thesis by (simp add: sv_emergency entry_effect_same entry_effect_put)
  next
    assume "k = ''yearsOfExperience''"
    then show ?thesis
      by (simp add: sv_years entry_effect_same entry_effect_put split: option.split)
  qed
qed

lemma entry_effect_cases [consumes 1, case_names unchanged email dob other]:
  assumes "entry_effect sd k sd'"
  obtains "sd' = sd"
  | s where "k = ''email''"
      "sd' = put (put sd ''email'' (Str s)) ''emailConfirmed'' (Bool True)"
  | s where "k = ''dateOfBirth''"
      "sd' = put (put sd ''dateOfBirth'' (Str s)) ''dobConfirmed'' (Bool True)"
  | s where "k \<noteq> ''email''" "k \<noteq> ''dateOfBirth''" "sd' = put sd k (Str s)"
proof -
  from assms have "sd' = sd \<or>
      (\<exists>s. sd' =
         (if k = ''email'' then put (put sd k (Str s)) ''emailConfirmed'' (Bool True)
          else if k = ''dateOfBirth'' then put (put sd k (Str s)) ''dobConfirmed'' (Bool True)
          else put sd k (Str s)))"
    by (simp only: entry_effect_def)
  then show thesis
  proof (elim disjE exE)
    assume "sd' = sd"
    then show thesis by (rule that(1))
  next
    fix s
    assume eq: "sd' =
         (if k = ''email'' then put (put sd k (Str s)) ''emailConfirmed'' (Bool True)
          else if k = ''dateOfBirth'' then put (put sd k (Str s)) ''dobConfirmed'' (Bool True)
          else put sd k (Str s))"
    show thesis
    proof (cases "k = ''email''")
      case True
      with eq show thesis by (intro that(2) [of s]) simp_all
    next
      case ne: False
      show thesis
      proof (cases "k = ''dateOfBirth''")
        case True
        with eq show thesis by (intro that(3) [of s]) simp_all
      next
        case False
        with ne eq show thesis by (intro that(4) [of s]) simp_all
      qed
    qed
  qed
qed

lemma storeEntry_effect:
  assumes "storeEntry clk sd (k, v) = Inr sd'"
  shows "sd' = sd \<or> (hasOwnProperty sd k \<and> get sd k = Null \<and> entry_effect sd k sd')"
proof (cases "v = Null \<or> v = Undefined \<or> \<not> hasOwnProperty sd k \<or> get sd k \<noteq> Null")
  case True
  with assms have "sd' = sd" by (auto simp: storeEntry_def split: if_splits)
  then show ?thesis ..
next
  case False
  with assms obtain str where "sd' = storeValue clk sd k (trim str)"
    by (auto simp: storeEntry_def split: sum.splits)
  with False show ?thesis by (simp add: storeValue_effect)
qed

text \<open>Consequences for one entry that is processed without a throw.\<close>

lemma storeEntry_nonnull:
  assumes "storeEntry clk sd (k, v) = Inr sd'" "get sd k' \<noteq> Null"
  shows "get sd' k' \<noteq> Null"
proof -
  from storeEntry_effect [OF assms(1)] show ?thesis
  proof (elim disjE conjE)
    assume "sd' = sd"
    with assms show ?thesis by simp
  next
    assume "entry_effect sd k sd'"
    then show ?thesis using assms(2)
      by (cases rule: entry_effect_cases) (simp_all add: get_put)
  qed
qed



lemma storeEntry_count:
  assumes "storeEntry clk sd (k, v) = Inr sd'"
  shows "countNonNull sd \<le> countNonNull sd'"
proof -
  from storeEntry_effect [OF assms] show ?thesis
  proof (elim disjE conjE)
    assume "sd' = sd"
    then show ?thesis by simp
  next
    assume "entry_effect sd k sd'"
    then show ?thesis
    proof (cases rule: entry_effect_cases)
      case unchanged
      then show ?thesis by simp
    next
      case (email s)
      have "countNonNull sd \<le> countNonNull (put sd ''email'' (Str s))"
        by (rule countNonNull_put) simp
      also have "\<dots> \<le> countNonNull (put (put sd ''email'' (Str s)) ''emailConfirmed'' (Bool True))"
        by (rule countNonNull_put) simp
      finally show ?thesis using email by simp
    next
      case (dob s)
      have "countNonNull sd \<le> countNonNull (put sd ''dateOfBirth'' (Str s))"
        by (rule countNonNull_put) simp
      also have "\<dots> \<le> countNonNull (put (put sd ''dateOfBirth'' (Str s)) ''dobConfirmed'' (Bool True))"
        by (rule countNonNull_put) simp
      finally show ?thesis using dob by simp
    next
      case (other s)
      then show ?thesis by (simp add: countNonNull_put)
    qed
  qed
qed

lemma storeEntry_keys:
  assumes "storeEntry clk sd (k, v) = Inr sd'" "flags_present sd"
  shows "Object_keys sd' = Object_keys sd"
proof -
  from storeEntry_effect [OF assms(1)] show ?thesis
  proof (elim disjE conjE)
    assume "sd' = sd"
    then show ?thesis by simp
  next
    assume k: "hasOwnProperty sd k" and "entry_effect sd k sd'"
    from this(2) show ?thesis
    proof (cases rule: entry_effect_cases)
      case unchanged
      then show ?thesis by simp
    next
      case (email s)
      with k assms(2) show ?thesis
        by (simp add: Object_keys_put hasOwnProperty_put flags_present_def)
    next
      case (dob s)
      with k assms(2) show ?thesis
        by (simp add: Object_keys_put hasOwnProperty_put flags_present_def)
    next
      case (other s)
      with k show ?thesis by (simp add: Object_keys_put)
    qed
  qed
qed


text \<open>
  The loop over the entries: what holds of the object at the start, and is kept
  by every entry that is processed, holds of the object the loop leaves, whether
  the loop ends in a throw or not.
\<close>

lemma forEach_store_invariant:
  assumes "P sd"
    and "\<And>sd k v sd'. P sd \<Longrightarrow> storeEntry clk sd (k, v) = Inr sd' \<Longrightarrow> P sd'"
  shows "P (fst (forEach_store clk sd entries))"
  using assms(1)
proof (induction entries arbitrary: sd)
  case Nil
  then show ?case by simp
next
  case (Cons e entries)
  obtain k v where e: "e = (k, v)" by (cases e)
  show ?case
  proof (cases "storeEntry clk sd (k, v)")
    case (Inl err)
    with Cons.prems e show ?thesis by simp
  next
    case (Inr sd')
    have "P sd'" by (rule assms(2) [OF Cons.prems Inr])
    then have "P (fst (forEach_store clk sd' entries))" by (rule Cons.IH)
    with Inr e show ?thesis by simp
  qed
qed

lemma flags_present_keys:
  "Object_keys sd' = Object_keys sd \<Longrightarrow> flags_present sd' = flags_present sd"
  by (simp add: flags_present_def hasOwnProperty_keys)

lemma forEach_store_keys:
  assumes "flags_present sd"
  shows "Object_keys (fst (forEach_store clk sd entries)) = Object_keys sd"
proof (rule forEach_store_invariant [where P = "\<lambda>x. Object_keys x = Object_keys sd"])
  show "Object_keys sd = Object_keys sd" ..
next
  fix x k v x'
  assume x: "Object_keys x = Object_keys sd" and st: "storeEntry clk x (k, v) = Inr x'"
  from flags_present_keys [OF x] assms have "flags_present x" by simp
  with st have "Object_keys x' = Object_keys x" by (rule storeEntry_keys)
  with x show "Object_keys x' = Object_keys sd" by simp
qed

lemma forEach_store_nonnull:
  assumes "get sd k' \<noteq> Null"
  shows "get (fst (forEach_store clk sd entries)) k' \<noteq> Null"
proof (rule forEach_store_invariant [where P = "\<lambda>x. get x k' \<noteq> Null"])
  show "get sd k' \<noteq> Null" by (rule assms)
next
  fix x k v x'
  assume x: "get x k' \<noteq> Null" and st: "storeEntry clk x (k, v) = Inr x'"
  show "get x' k' \<noteq> Null" by (rule storeEntry_nonnull [OF st x])
qed



lemma forEach_store_count:
  "countNonNull sd \<le> countNonNull (fst (forEach_store clk sd entries))"
proof (rule forEach_store_invariant [where P = "\<lambda>x. countNonNull sd \<le> countNonNull x"])
  show "countNonNull sd \<le> countNonNull sd" ..
next
  fix x k v x'
  assume x: "countNonNull sd \<le> countNonNull x" and st: "storeEntry clk x (k, v) = Inr x'"
  from st have "countNonNull x \<le> countNonNull x'" by (rule storeEntry_count)
  with x show "countNonNull sd \<le> countNonNull x'" by simp
qed

text \<open>The agent around the loop.\<close>

lemma sectionOf_setSection:
  "sectionOf (setSection cd s sd) s' = (if s' = s then sd else sectionOf cd s')"
  by (cases s; cases s') simp_all

lemma setSection_same: "setSection cd s (sectionOf cd s) = cd"
  by (cases s) simp_all

lemma validateAndStore_result:
  obtains (thrown) "fst (validateAndStoreExtractedData clk a d) = a"
  | (looped) entries where "Object_entries d = Inr entries"
      "validateAndStoreExtractedData clk a d =
         (a\<lparr>collectedData := setSection (collectedData a) (currentSection a)
              (fst (forEach_store clk (sectionOf (collectedData a) (currentSection a)) entries))\<rparr>,
          snd (forEach_store clk (sectionOf (collectedData a) (currentSection a)) entries))"
proof (cases "Object_entries d")
  case (Inl e)
  then show ?thesis by (intro thrown) (simp add: validateAndStoreExtractedData_def Let_def)
next
  case (Inr entries)
  then show ?thesis
    by (intro looped [of entries])
       (simp_all add: validateAndStoreExtractedData_def Let_def case_prod_unfold)
qed

lemma extractAndStore_result:
  "fst (extractAndStore parse clk a r) = a \<or>
   (\<exists>d. extractAndStore parse clk a r = validateAndStoreExtractedData clk a d)"
proof (cases r)
  case CallThrows
  then show ?thesis by (simp add: extractAndStore_def)
next
  case NoContent
  then show ?thesis by (simp add: extractAndStore_def)
next
  case (Content content)
  show ?thesis
  proof (cases "parse (trim content)")
    case (Some d)
    with Content have "extractAndStore parse clk a r = validateAndStoreExtractedData clk a d"
      by (simp add: extractAndStore_def)
    then show ?thesis by (intro disjI2 exI)
  next
    case None
    show ?thesis
    proof (cases "match_braces (trim content)")
      case no_match: None
      with Content None
      have "extractAndStore parse clk a r = validateAndStoreExtractedData clk a (Obj [])"
        by (simp add: extractAndStore_def)
      then show ?thesis by (intro disjI2 exI)
    next
      case (Some m)
      show ?thesis
      proof (cases "parse m")
        case no_parse: None
        with Content None Some show ?thesis by (simp add: extractAndStore_def)
      next
        case parsed: (Some d)
        with Content None Some
        have "extractAndStore parse clk a r = validateAndStoreExtractedData clk a d"
          by (simp add: extractAndStore_def)
        then show ?thesis by (intro disjI2 exI)
      qed
    qed
  qed
qed

lemma updateWithLLM_eq:
  "updateCollectedDataWithLLM parse clk a r =
     Inr (if length (getMissingFields a) = 0 then a else fst (extractAndStore parse clk a r))"
  by (cases "extractAndStore parse clk a r"; cases "snd (extractAndStore parse clk a r)")
     (simp_all add: updateCollectedDataWithLLM_def)

text \<open>Every operation changes the agent as a run of the loop on its current section does.\<close>

lemma apply_op_result:
  obtains (same) "apply_op a op = a"
  | (moved) s where "apply_op a op = a\<lparr>currentSection := s\<rparr>"
  | (stored) clk entries where
      "apply_op a op = a\<lparr>collectedData := setSection (collectedData a) (currentSection a)
         (fst (forEach_store clk (sectionOf (collectedData a) (currentSection a)) entries))\<rparr>"
proof (cases op)
  case (ValidateAndStore clk d)
  show ?thesis
  proof (cases rule: validateAndStore_result [of clk a d])
    case thrown
    with ValidateAndStore show ?thesis by (intro same) simp
  next
    case (looped entries)
    with ValidateAndStore show ?thesis by (intro stored [of clk entries]) simp
  qed
next
  case (UpdateWithLLM parse clk r)
  show ?thesis
  proof (cases "length (getMissingFields a) = 0")
    case True
    with UpdateWithLLM show ?thesis by (intro same) (simp add: updateWithLLM_eq)
  next
    case False
    with UpdateWithLLM have ap: "apply_op a op = fst (extractAndStore parse clk a r)"
      by (simp add: updateWithLLM_eq)
    from extractAndStore_result [of parse clk a r] show ?thesis
    proof (elim disjE exE)
      assume "fst (extractAndStore parse clk a r) = a"
      with ap show ?thesis by (intro same) simp
    next
      fix d
      assume eq: "extractAndStore parse clk a r = validateAndStoreExtractedData clk a d"
      show ?thesis
      proof (cases rule: validateAndStore_result [of clk a d])
        case thrown
        with ap eq show ?thesis by (intro same) simp
      next
        case (looped entries)
        with ap eq show ?thesis by (intro stored [of clk entries]) simp
      qed
    qed
  qed
next
  case MoveToNextSection
  then have "apply_op a op = a \<or> apply_op a op = a\<lparr>currentSection := Educational\<rparr> \<or>
      apply_op a op = a\<lparr>currentSection := Professional\<rparr> \<or>
      apply_op a op = a\<lparr>currentSection := Family\<rparr>"
    by (cases "currentSection a") (simp_all add: moveToNextSection_cases)
  then show ?thesis
    by (elim disjE) (erule same | erule moved)+
qed

section \<open>Completion percentage\<close>

lemma count_fold:
  "fold (\<lambda>value (t, c). (t + 1, if value \<noteq> Null then c + 1 else c)) vs (t0 :: int, c0 :: int) =
     (t0 + int (length vs), c0 + int (length (filter (\<lambda>v. v \<noteq> Null) vs)))"
  by (induction vs arbitrary: t0 c0) auto

lemma fields_fold:
  "fold (\<lambda>section (totalFields, completedFields).
          fold (\<lambda>value (totalFields, completedFields).
                 (totalFields + 1,
                  if value \<noteq> Null then completedFields + 1 else completedFields))
               (Object_values (sectionOf (collectedData a) section))
               (totalFields, completedFields))
          sections (0::int, 0::int) =
   (int (totalFields a), int (completedFields a))"
  by (simp add: sections_def count_fold totalFields_def completedFields_def countNonNull_def
      Object_values_def)

lemma getCompletionPercentage_eq:
  "getCompletionPercentage a =
     (if totalFields a = 0 then None
      else Some ((200 * int (completedFields a) + int (totalFields a)) div (2 * int (totalFields a))))"
  unfolding getCompletionPercentage_def fields_fold by simp

lemma schema_keys_section:
  "schema_keys a \<Longrightarrow>
     Object_keys (sectionOf (collectedData a) s) = Object_keys (sectionOf newCollectedData s)"
  by (cases s) (simp_all add: schema_keys_def sections_def)

lemma schema_keys_iff:
  "schema_keys a = (\<forall>s. Object_keys (sectionOf (collectedData a) s) =
     Object_keys (sectionOf newCollectedData s))"
proof
  assume "schema_keys a"
  then show "\<forall>s. Object_keys (sectionOf (collectedData a) s) =
     Object_keys (sectionOf newCollectedData s)"
    by (simp add: schema_keys_section)
next
  assume "\<forall>s. Object_keys (sectionOf (collectedData a) s) =
     Object_keys (sectionOf newCollectedData s)"
  then show "schema_keys a"
    by (simp add: schema_keys_def sections_def)
qed

lemma schema_flags_present:
  assumes "schema_keys a"
  shows "flags_present (sectionOf (collectedData a) s)"
proof -
  have "flags_present (sectionOf newCollectedData s)"
    by (cases s) (simp_all add: flags_present_def hasOwnProperty_def newCollectedData_def)
  with schema_keys_section [OF assms, of s] flags_present_keys show ?thesis by blast
qed

lemma schema_totalFields: "schema_keys a \<Longrightarrow> totalFields a = 22"
proof -
  assume a: "schema_keys a"
  have len: "length (sectionOf (collectedData a) s) = length (Object_keys (sectionOf newCollectedData s))" for s
    using schema_keys_section [OF a, of s, symmetric] by (simp add: Object_keys_def)
  show ?thesis
    by (simp add: totalFields_def sections_def len) (simp add: newCollectedData_def Object_keys_def)
qed

text \<open>One operation: the field names stay, and no section loses a value.\<close>

lemma apply_op_keys:
  assumes "schema_keys a"
  shows "Object_keys (sectionOf (collectedData (apply_op a op)) s) =
         Object_keys (sectionOf (collectedData a) s)"
proof (cases rule: apply_op_result [of a op])
  case same
  then show ?thesis by simp
next
  case (moved s')
  then show ?thesis by simp
next
  case (stored clk entries)
  then show ?thesis
    by (simp add: sectionOf_setSection forEach_store_keys schema_flags_present [OF assms])
qed

lemma apply_op_schema: "schema_keys a \<Longrightarrow> schema_keys (apply_op a op)"
  by (simp add: schema_keys_iff [of "apply_op a op"] apply_op_keys schema_keys_section)

lemma apply_op_count:
  "countNonNull (sectionOf (collectedData a) s) \<le>
   countNonNull (sectionOf (collectedData (apply_op a op)) s)"
proof (cases rule: apply_op_result [of a op])
  case same
  then show ?thesis by simp
next
  case (moved s')
  then show ?thesis by simp
next
  case (stored clk entries)
  then show ?thesis by (simp add: sectionOf_setSection forEach_store_count)
qed

lemma apply_op_nonnull:
  assumes "get (sectionOf (collectedData a) s) k \<noteq> Null"
  shows "get (sectionOf (collectedData (apply_op a op)) s) k \<noteq> Null"
proof (cases rule: apply_op_result [of a op])
  case same
  with assms show ?thesis by simp
next
  case (moved s')
  with assms show ?thesis by simp
next
  case (stored clk entries)
  show ?thesis
  proof (cases "s = currentSection a")
    case True
    from assms
    have "get (fst (forEach_store clk (sectionOf (collectedData a) s) entries)) k \<noteq> Null"
      by (rule forEach_store_nonnull)
    with True stored show ?thesis by (simp add: sectionOf_setSection)
  next
    case False
    with assms stored show ?thesis by (simp add: sectionOf_setSection)
  qed
qed

lemma apply_op_completed: "completedFields a \<le> completedFields (apply_op a op)"
  unfolding completedFields_def sections_def
  using apply_op_count [of a Personal op] apply_op_count [of a Educational op]
    apply_op_count [of a Professional op] apply_op_count [of a Family op]
  by simp

text \<open>Sequences of operations.\<close>

lemma run_Cons: "run a (op # ops) = run (apply_op a op) ops"
  by (simp add: run_def)

lemma run_append: "run a (ops1 @ ops2) = run (run a ops1) ops2"
  by (simp add: run_def)

lemma run_schema: "schema_keys a \<Longrightarrow> schema_keys (run a ops)"
  by (induction ops arbitrary: a) (simp_all add: run_def apply_op_schema)

lemma run_completed: "completedFields a \<le> completedFields (run a ops)"
proof (induction ops arbitrary: a)
  case Nil
  then show ?case by (simp add: run_def)
next
  case (Cons op ops)
  have "completedFields a \<le> completedFields (apply_op a op)" by (rule apply_op_completed)
  also have "\<dots> \<le> completedFields (run (apply_op a op) ops)" by (rule Cons.IH)
  finally show ?case by (simp add: run_Cons)
qed

lemma run_nonnull:
  "get (sectionOf (collectedData a) s) k \<noteq> Null \<Longrightarrow>
     get (sectionOf (collectedData (run a ops)) s) k \<noteq> Null"
proof (induction ops arbitrary: a)
  case Nil
  then show ?case by (simp add: run_def)
next
  case (Cons op ops)
  from Cons.prems have "get (sectionOf (collectedData (apply_op a op)) s) k \<noteq> Null"
    by (rule apply_op_nonnull)
  then show ?case by (simp add: run_Cons Cons.IH)
qed

lemma schema_percentage:
  "schema_keys a \<Longrightarrow>
     getCompletionPercentage a = Some ((200 * int (completedFields a) + 22) div 44)"
  by (simp add: getCompletionPercentage_eq schema_totalFields)

text \<open>
  C5. For a session, an agent with the constructor's field names, the completion
  percentage never decreases along a sequence of operations
  (validateAndStoreExtractedData, updateCollectedDataWithLLM, moveToNextSection):
  after any prefix of the sequence it is defined and at most what it is after
  the whole sequence, and a field that is not null after the prefix is not null
  after the whole sequence.
\<close>

theorem C5_completion_percentage_monotone:
  assumes "schema_keys a"
  shows "(\<exists>p q. getCompletionPercentage (run a ops1) = Some p \<and>
             getCompletionPercentage (run a (ops1 @ ops2)) = Some q \<and> p \<le> q) \<and>
         (\<forall>s k. get (sectionOf (collectedData (run a ops1)) s) k \<noteq> Null \<longrightarrow>
             get (sectionOf (collectedData (run a (ops1 @ ops2))) s) k \<noteq> Null)"
proof -
  let ?a1 = "run a ops1" and ?a2 = "run a (ops1 @ ops2)"
  have a2: "?a2 = run ?a1 ops2" by (rule run_append)
  have s1: "schema_keys ?a1" using assms by (rule run_schema)
  then have s2: "schema_keys ?a2" unfolding a2 by (rule run_schema)
  have "completedFields ?a1 \<le> completedFields ?a2" unfolding a2 by (rule run_completed)
  then have "(200 * int (completedFields ?a1) + 22) div 44 \<le>
      (200 * int (completedFields ?a2) + 22) div 44"
    by (intro zdiv_mono1) simp_all
  then have "\<exists>p q. getCompletionPercentage ?a1 = Some p \<and>
      getCompletionPercentage ?a2 = Some q \<and> p \<le> q"
    by (simp add: schema_percentage [OF s1] schema_percentage [OF s2])
  moreover have "\<forall>s k. get (sectionOf (collectedData ?a1) s) k \<noteq> Null \<longrightarrow>
      get (sectionOf (collectedData ?a2) s) k \<noteq> Null"
    unfolding a2 by (simp add: run_nonnull)
  ultimately show ?thesis by (rule conjI)
qed

theorem C5_completion_percentage_monotone_witness:
  "schema_keys (newAgent 0) \<and>
   getCompletionPercentage (run (newAgent 0) []) = Some 9 \<and>
   getCompletionPercentage (run (newAgent 0)
     ([] @ [ValidateAndStore \<lparr>now = 0, tzOffset = 0\<rparr> (Obj [(''firstName'', Str ''John'')])])) = Some 14 \<and>
   get (sectionOf (collectedData (run (newAgent 0)
     ([] @ [ValidateAndStore \<lparr>now = 0, tzOffset = 0\<rparr> (Obj [(''firstName'', Str ''John'')])]))) Personal)
     ''emailConfirmed'' \<noteq> Null"
proof -
  have s: "schema_keys (newAgent 0)" by code_simp
  have p1: "getCompletionPercentage (run (newAgent 0) []) = Some 9" by code_simp
  have p2: "getCompletionPercentage (run (newAgent 0)
     ([] @ [ValidateAndStore \<lparr>now = 0, tzOffset = 0\<rparr> (Obj [(''firstName'', Str ''John'')])])) = Some 14"
    by code_simp
  have nn: "get (sectionOf (collectedData (run (newAgent 0) [])) Personal) ''emailConfirmed'' \<noteq> Null"
    by code_simp
  from C5_completion_percentage_monotone [OF s, of "[]"
      "[ValidateAndStore \<lparr>now = 0, tzOffset = 0\<rparr> (Obj [(''firstName'', Str ''John'')])]"] nn
  have "get (sectionOf (collectedData (run (newAgent 0)
     ([] @ [ValidateAndStore \<lparr>now = 0, tzOffset = 0\<rparr> (Obj [(''firstName'', Str ''John'')])]))) Personal)
     ''emailConfirmed'' \<noteq> Null" by blast
  then show ?thesis using s p1 p2 by (intro conjI)
qed

section \<open>Confirmation flags\<close>

lemma storeEntry_flags_follow:
  assumes "storeEntry clk sd (k, v) = Inr sd'" "flags_follow sd"
  shows "flags_follow sd'"
proof -
  from storeEntry_effect [OF assms(1)] show ?thesis
  proof (elim disjE conjE)
    assume "sd' = sd"
    with assms show ?thesis by simp
  next
    assume k: "get sd k = Null" and "entry_effect sd k sd'"
    from this(2) show ?thesis
    proof (cases rule: entry_effect_cases)
      case unchanged
      with assms show ?thesis by simp
    next
      case (email s)
      with assms(2) show ?thesis by (simp add: flags_follow_def get_put)
    next
      case (dob s)
      with assms(2) show ?thesis by (simp add: flags_follow_def get_put)
    next
      case (other s)
      from k assms(2) have "k \<noteq> ''emailConfirmed''" "k \<noteq> ''dobConfirmed''"
        by (auto simp: flags_follow_def)
      with other assms(2) show ?thesis by (simp add: flags_follow_def get_put)
    qed
  qed
qed

lemma forEach_store_flags_follow:
  assumes "flags_follow sd"
  shows "flags_follow (fst (forEach_store clk sd entries))"
proof (rule forEach_store_invariant [where P = flags_follow])
  show "flags_follow sd" by (rule assms)
next
  fix x k v x'
  assume x: "flags_follow x" and st: "storeEntry clk x (k, v) = Inr x'"
  show "flags_follow x'" by (rule storeEntry_flags_follow [OF st x])
qed

lemma apply_op_flags_follow:
  assumes "flags_follow (personal (collectedData a))"
  shows "flags_follow (personal (collectedData (apply_op a op)))"
proof (cases rule: apply_op_result [of a op])
  case same
  with assms show ?thesis by simp
next
  case (moved s)
  with assms show ?thesis by simp
next
  case (stored clk entries)
  show ?thesis
  proof (cases "currentSection a")
    case Personal
    with assms stored show ?thesis by (simp add: forEach_store_flags_follow)
  next
    case Educational
    with assms stored show ?thesis by simp
  next
    case Professional
    with assms stored show ?thesis by simp
  next
    case Family
    with assms stored show ?thesis by simp
  qed
qed

lemma run_flags_follow:
  "flags_follow (personal (collectedData a)) \<Longrightarrow>
     flags_follow (personal (collectedData (run a ops)))"
proof (induction ops arbitrary: a)
  case Nil
  then show ?case by (simp add: run_def)
next
  case (Cons op ops)
  from Cons.prems have "flags_follow (personal (collectedData (apply_op a op)))"
    by (rule apply_op_flags_follow)
  then show ?case by (simp add: run_Cons Cons.IH)
qed

lemma newAgent_flags_follow: "flags_follow (personal (collectedData (newAgent t)))"
  by (simp add: flags_follow_def newAgent_def newCollectedData_def get_def)

text \<open>
  C10. In every state that a sequence of operations (validateAndStoreExtractedData,
  moveToNextSection, and updateCollectedDataWithLLM as well) reaches from a freshly
  constructed agent, an email that is not null has emailConfirmed true, and a date
  of birth that is not null has dobConfirmed true.
\<close>

theorem C10_confirmation_flags_follow_values:
  "(get (personal (collectedData (run (newAgent t) ops))) ''email'' \<noteq> Null \<longrightarrow>
      get (personal (collectedData (run (newAgent t) ops))) ''emailConfirmed'' = Bool True) \<and>
   (get (personal (collectedData (run (newAgent t) ops))) ''dateOfBirth'' \<noteq> Null \<longrightarrow>
      get (personal (collectedData (run (newAgent t) ops))) ''dobConfirmed'' = Bool True)"
  using run_flags_follow [OF newAgent_flags_follow, of t ops]
  by (simp add: flags_follow_def)

theorem C10_confirmation_flags_follow_values_witness:
  "get (personal (collectedData (run (newAgent 0)
      [ValidateAndStore \<lparr>now = 1835431200000, tzOffset = 0\<rparr>
         (Obj [(''email'', Str ''john@example.com''), (''dateOfBirth'', Str ''1990-01-01'')]),
       MoveToNextSection]))) ''email'' = Str ''john@example.com'' \<and>
   get (personal (collectedData (run (newAgent 0)
      [ValidateAndStore \<lparr>now = 1835431200000, tzOffset = 0\<rparr>
         (Obj [(''email'', Str ''john@example.com''), (''dateOfBirth'', Str ''1990-01-01'')]),
       MoveToNextSection]))) ''emailConfirmed'' = Bool True \<and>
   get (personal (collectedData (run (newAgent 0)
      [ValidateAndStore \<lparr>now = 1835431200000, tzOffset = 0\<rparr>
         (Obj [(''email'', Str ''john@example.com''), (''dateOfBirth'', Str ''1990-01-01'')]),
       MoveToNextSection]))) ''dateOfBirth'' = Str ''1990-01-01'' \<and>
   get (personal (collectedData (run (newAgent 0)
      [ValidateAndStore \<lparr>now = 1835431200000, tzOffset = 0\<rparr>
         (Obj [(''email'', Str ''john@example.com''), (''dateOfBirth'', Str ''1990-01-01'')]),
       MoveToNextSection]))) ''dobConfirmed'' = Bool True"
proof -
  let ?p = "personal (collectedData (run (newAgent 0)
      [ValidateAndStore \<lparr>now = 1835431200000, tzOffset = 0\<rparr>
         (Obj [(''email'', Str ''john@example.com''), (''dateOfBirth'', Str ''1990-01-01'')]),
       MoveToNextSection]))"
  have e: "get ?p ''email'' = Str ''john@example.com''" by code_simp
  have d: "get ?p ''dateOfBirth'' = Str ''1990-01-01''" by code_simp
  from C10_confirmation_flags_follow_values [of 0
      "[ValidateAndStore \<lparr>now = 1835431200000, tzOffset = 0\<rparr>
         (Obj [(''email'', Str ''john@example.com''), (''dateOfBirth'', Str ''1990-01-01'')]),
       MoveToNextSection]"] e d
  have "get ?p ''emailConfirmed'' = Bool True" "get ?p ''dobConfirmed'' = Bool True"
    by simp_all
  with e d show ?thesis by (intro conjI)
qed

section \<open>Section completion\<close>

lemma take_prefix_iff: "(take (length sub) s = sub) = (\<exists>w. s = sub @ w)"
proof
  assume "take (length sub) s = sub"
  then have "s = sub @ drop (length sub) s" by (metis append_take_drop_id)
  then show "\<exists>w. s = sub @ w" ..
next
  assume "\<exists>w. s = sub @ w"
  then show "take (length sub) s = sub" by auto
qed

lemma str_includes_iff: "str_includes s sub = (\<exists>u w. s = u @ sub @ w)"
proof (induction s)
  case Nil
  then show ?case by auto
next
  case (Cons c cs)
  show ?case
  proof
    assume "str_includes (c # cs) sub"
    then have "take (length sub) (c # cs) = sub \<or> str_includes cs sub" by simp
    then show "\<exists>u w. c # cs = u @ sub @ w"
    proof
      assume "take (length sub) (c # cs) = sub"
      then obtain w where "c # cs = sub @ w" unfolding take_prefix_iff ..
      then have "c # cs = [] @ sub @ w" by simp
      then show ?thesis by blast
    next
      assume "str_includes cs sub"
      then obtain u w where "cs = u @ sub @ w" using Cons.IH by blast
      then have "c # cs = (c # u) @ sub @ w" by simp
      then show ?thesis by blast
    qed
  next
    assume "\<exists>u w. c # cs = u @ sub @ w"
    then obtain u w where eq: "c # cs = u @ sub @ w" by blast
    show "str_includes (c # cs) sub"
    proof (cases u)
      case Nil
      with eq have "\<exists>w. c # cs = sub @ w" by auto
      then have "take (length sub) (c # cs) = sub" unfolding take_prefix_iff .
      then show ?thesis by simp
    next
      case (Cons d u')
      with eq have "cs = u' @ sub @ w" by simp
      then have "str_includes cs sub" using Cons.IH by blast
      then show ?thesis by simp
    qed
  qed
qed

lemma get_put_other: "k' \<noteq> k \<Longrightarrow> get (put sd k v) k' = get sd k'"
  by (simp add: get_put)

text \<open>
  C9. In the personal section isCurrentSectionComplete is true exactly when
  firstName, lastName, email, phoneNumber, dateOfBirth and nationality are not
  null and emailConfirmed and dobConfirmed are true; middleName is not required:
  writing any value to it does not change the result. In every other section it
  is true exactly when every field whose name does not contain "Confirmed" is
  not null.
\<close>

theorem C9_isCurrentSectionComplete:
  "(currentSection a = Personal \<longrightarrow>
      (isCurrentSectionComplete a \<longleftrightarrow>
         (\<forall>k \<in> set [''firstName'', ''lastName'', ''email'', ''phoneNumber'', ''dateOfBirth'',
                      ''nationality'']. get (personal (collectedData a)) k \<noteq> Null) \<and>
         get (personal (collectedData a)) ''emailConfirmed'' = Bool True \<and>
         get (personal (collectedData a)) ''dobConfirmed'' = Bool True) \<and>
      (\<forall>v. isCurrentSectionComplete
             (a\<lparr>collectedData := (collectedData a)
                  \<lparr>personal := put (personal (collectedData a)) ''middleName'' v\<rparr>\<rparr>) =
           isCurrentSectionComplete a)) \<and>
   (currentSection a \<noteq> Personal \<longrightarrow>
      (isCurrentSectionComplete a \<longleftrightarrow>
         (\<forall>(key, value) \<in> set (sectionOf (collectedData a) (currentSection a)).
            (\<nexists>u w. key = u @ ''Confirmed'' @ w) \<longrightarrow> value \<noteq> Null)))"
proof (intro conjI impI)
  assume p: "currentSection a = Personal"
  then show "isCurrentSectionComplete a \<longleftrightarrow>
         (\<forall>k \<in> set [''firstName'', ''lastName'', ''email'', ''phoneNumber'', ''dateOfBirth'',
                      ''nationality'']. get (personal (collectedData a)) k \<noteq> Null) \<and>
         get (personal (collectedData a)) ''emailConfirmed'' = Bool True \<and>
         get (personal (collectedData a)) ''dobConfirmed'' = Bool True"
    by (simp add: isCurrentSectionComplete_def Let_def) blast?
  from p show "\<forall>v. isCurrentSectionComplete
             (a\<lparr>collectedData := (collectedData a)
                  \<lparr>personal := put (personal (collectedData a)) ''middleName'' v\<rparr>\<rparr>) =
           isCurrentSectionComplete a"
    by (simp add: isCurrentSectionComplete_def Let_def get_put)
next
  assume "currentSection a \<noteq> Personal"
  then show "isCurrentSectionComplete a \<longleftrightarrow>
         (\<forall>(key, value) \<in> set (sectionOf (collectedData a) (currentSection a)).
            (\<nexists>u w. key = u @ ''Confirmed'' @ w) \<longrightarrow> value \<noteq> Null)"
    by (simp add: isCurrentSectionComplete_def Let_def list_all_iff str_includes_iff case_prod_unfold)
qed

theorem C9_isCurrentSectionComplete_witness:
  "isCurrentSectionComplete
     \<lparr>collectedData = newCollectedData\<lparr>personal := [
        (''firstName'', Str ''John''),
        (''middleName'', Null),
        (''lastName'', Str ''Smith''),
        (''email'', Str ''john@example.com''),
        (''emailConfirmed'', Bool True),
        (''phoneNumber'', Str ''1234567890''),
        (''dateOfBirth'', Str ''1990-01-01''),
        (''dobConfirmed'', Bool True),
        (''nationality'', Str ''American'')]\<rparr>,
      currentSection = Personal, createdAt = None\<rparr> \<and>
   isCurrentSectionComplete
     \<lparr>collectedData = newCollectedData\<lparr>educational := [
        (''highestQualification'', Str ''PhD''),
        (''university'', Str ''MIT''),
        (''fieldOfStudy'', Str ''Physics''),
        (''graduationYear'', Str ''2012'')]\<rparr>,
      currentSection = Educational, createdAt = None\<rparr>"
proof
  let ?a = "\<lparr>collectedData = newCollectedData\<lparr>personal := [
        (''firstName'', Str ''John''),
        (''middleName'', Null),
        (''lastName'', Str ''Smith''),
        (''email'', Str ''john@example.com''),
        (''emailConfirmed'', Bool True),
        (''phoneNumber'', Str ''1234567890''),
        (''dateOfBirth'', Str ''1990-01-01''),
        (''dobConfirmed'', Bool True),
        (''nationality'', Str ''American'')]\<rparr>,
      currentSection = Personal, createdAt = None\<rparr>"
  have "currentSection ?a = Personal" by simp
  moreover have "\<forall>k \<in> set [''firstName'', ''lastName'', ''email'', ''phoneNumber'',
      ''dateOfBirth'', ''nationality'']. get (personal (collectedData ?a)) k \<noteq> Null"
    by (simp add: get_def)
  moreover have "get (personal (collectedData ?a)) ''emailConfirmed'' = Bool True"
    "get (personal (collectedData ?a)) ''dobConfirmed'' = Bool True"
    by (simp_all add: get_def)
  ultimately show "isCurrentSectionComplete ?a"
    using C9_isCurrentSectionComplete [of ?a] by blast
next
  let ?b = "\<lparr>collectedData = newCollectedData\<lparr>educational := [
        (''highestQualification'', Str ''PhD''),
        (''university'', Str ''MIT''),
        (''fieldOfStudy'', Str ''Physics''),
        (''graduationYear'', Str ''2012'')]\<rparr>,
      currentSection = Educational, createdAt = None\<rparr>"
  have "currentSection ?b \<noteq> Personal" by simp
  moreover have "\<forall>(key, value) \<in> set (sectionOf (collectedData ?b) (currentSection ?b)).
      (\<nexists>u w. key = u @ ''Confirmed'' @ w) \<longrightarrow> value \<noteq> Null"
    by simp
  ultimately show "isCurrentSectionComplete ?b"
    using C9_isCurrentSectionComplete [of ?b] by blast
qed

section \<open>Extraction failures\<close>

lemma show_nat_digits: "list_all is_digit (show_nat n)"
proof (induction n rule: show_nat.induct)
  case (1 n)
  have d: "is_digit (char_of (48 + m))" if "m < 10" for m :: nat
    using that by (simp add: is_digit_def)
  show ?case
  proof (cases "n < 10")
    case True
    then show ?thesis by (subst show_nat.simps) (simp add: d)
  next
    case False
    then show ?thesis using 1 by (subst show_nat.simps) (simp add: d)
  qed
qed

lemma show_nat_nonempty: "show_nat n \<noteq> []"
  by (subst show_nat.simps) simp

lemma show_nat_hd: "is_digit (hd (show_nat n))"
  using show_nat_digits [of n] show_nat_nonempty [of n]
  by (cases "show_nat n") simp_all

lemma schema_key_hd:
  "list_all (\<lambda>k. \<not> is_digit (hd k)) (Object_keys (sectionOf newCollectedData s))"
  by (cases s) (simp_all add: newCollectedData_def Object_keys_def is_digit_def)

lemma schema_no_index_key:
  assumes "schema_keys a"
  shows "\<not> hasOwnProperty (sectionOf (collectedData a) s) (show_nat n)"
proof
  assume "hasOwnProperty (sectionOf (collectedData a) s) (show_nat n)"
  then have "show_nat n \<in> set (Object_keys (sectionOf newCollectedData s))"
    by (simp add: hasOwnProperty_keys schema_keys_section [OF assms])
  with schema_key_hd [of s] have "\<not> is_digit (hd (show_nat n))"
    by (simp add: list_all_iff)
  with show_nat_hd show False by blast
qed

lemma storeEntry_not_own: "\<not> hasOwnProperty sd k \<Longrightarrow> storeEntry clk sd (k, v) = Inr sd"
  by (simp add: storeEntry_def)

lemma forEach_store_not_own:
  "\<forall>k \<in> fst ` set entries. \<not> hasOwnProperty sd k \<Longrightarrow>
     forEach_store clk sd entries = (sd, None)"
proof (induction entries)
  case Nil
  then show ?case by simp
next
  case (Cons e entries)
  obtain k v where e: "e = (k, v)" by (cases e)
  with Cons.prems have "storeEntry clk sd (k, v) = Inr sd" by (simp add: storeEntry_not_own)
  with Cons e show ?case by simp
qed

lemma indexed_keys:
  assumes "k \<in> fst ` set (indexed xs)"
  obtains n where "k = show_nat n"
proof -
  from assms obtain kv where kv: "kv \<in> set (zip (map show_nat [0..<length xs]) xs)" "k = fst kv"
    unfolding indexed_def by (elim imageE)
  then have "(k, snd kv) \<in> set (zip (map show_nat [0..<length xs]) xs)" by simp
  then obtain v where "(k, v) \<in> set (zip (map show_nat [0..<length xs]) xs)" ..
  then have "k \<in> set (map show_nat [0..<length xs])" by (rule set_zip_leftD)
  then obtain n where "k = show_nat n" unfolding set_map by (elim imageE)
  then show thesis by (rule that)
qed

lemma agent_collectedData_same: "a\<lparr>collectedData := collectedData a\<rparr> = a"
  by simp

lemma validateAndStore_no_entry:
  assumes "Object_entries d = Inr entries"
    "\<forall>k \<in> fst ` set entries. \<not> hasOwnProperty (sectionOf (collectedData a) (currentSection a)) k"
  shows "validateAndStoreExtractedData clk a d = (a, None)"
  using assms
  by (simp add: validateAndStoreExtractedData_def forEach_store_not_own setSection_same)

lemma validateAndStore_not_object:
  assumes "schema_keys a" "\<not> is_Obj d \<or> d = Obj []"
  shows "fst (validateAndStoreExtractedData clk a d) = a"
proof -
  have idx: "\<forall>k \<in> fst ` set (indexed xs).
      \<not> hasOwnProperty (sectionOf (collectedData a) (currentSection a)) k" for xs :: "jsval list"
  proof
    fix k
    assume "k \<in> fst ` set (indexed xs)"
    then obtain n where "k = show_nat n" by (rule indexed_keys)
    then show "\<not> hasOwnProperty (sectionOf (collectedData a) (currentSection a)) k"
      by (simp add: schema_no_index_key [OF assms(1)])
  qed
  show ?thesis
  proof (cases d)
    case Null
    then show ?thesis by (simp add: validateAndStoreExtractedData_def)
  next
    case Undefined
    then show ?thesis by (simp add: validateAndStoreExtractedData_def)
  next
    case (Bool b)
    have "validateAndStoreExtractedData clk a d = (a, None)"
      by (rule validateAndStore_no_entry [of _ "[]"]) (simp_all add: Bool)
    then show ?thesis by simp
  next
    case (Num s)
    have "validateAndStoreExtractedData clk a d = (a, None)"
      by (rule validateAndStore_no_entry [of _ "[]"]) (simp_all add: Num)
    then show ?thesis by simp
  next
    case (Str s)
    have "validateAndStoreExtractedData clk a d = (a, None)"
    proof (rule validateAndStore_no_entry)
      show "Object_entries d = Inr (indexed (map (\<lambda>c. Str [c]) s))" by (simp add: Str)
      show "\<forall>k \<in> fst ` set (indexed (map (\<lambda>c. Str [c]) s)).
          \<not> hasOwnProperty (sectionOf (collectedData a) (currentSection a)) k"
        by (rule idx)
    qed
    then show ?thesis by simp
  next
    case (Arr xs)
    have "validateAndStoreExtractedData clk a d = (a, None)"
    proof (rule validateAndStore_no_entry)
      show "Object_entries d = Inr (indexed xs)" by (simp add: Arr)
      show "\<forall>k \<in> fst ` set (indexed xs).
          \<not> hasOwnProperty (sectionOf (collectedData a) (currentSection a)) k"
        by (rule idx)
    qed
    then show ?thesis by simp
  next
    case (Obj kvs)
    with assms(2) have e: "d = Obj []" by simp
    have "validateAndStoreExtractedData clk a d = (a, None)"
      by (rule validateAndStore_no_entry [of _ "[]"]) (simp_all add: e)
    then show ?thesis by simp
  qed
qed

lemma extractAndStore_failure:
  assumes "schema_keys a"
    "response = CallThrows \<or> response = NoContent \<or>
     (\<exists>content. response = Content content \<and> \<not> parses_to_object parse content)"
  shows "fst (extractAndStore parse clk a response) = a"
proof (cases response)
  case CallThrows
  then show ?thesis by (simp add: extractAndStore_def)
next
  case NoContent
  then show ?thesis by (simp add: extractAndStore_def)
next
  case (Content content)
  with assms(2) have np: "\<not> parses_to_object parse content" by simp
  have vs: "fst (validateAndStoreExtractedData clk a d) = a" if "\<not> is_Obj d \<or> d = Obj []" for d
    using assms(1) that by (rule validateAndStore_not_object)
  show ?thesis
  proof (cases "parse (trim content)")
    case (Some d)
    with np have "\<not> is_Obj d" by (simp add: parses_to_object_def)
    then show ?thesis using vs [of d] Content Some by (simp add: extractAndStore_def)
  next
    case None
    show ?thesis
    proof (cases "match_braces (trim content)")
      case no_match: None
      then show ?thesis using vs [of "Obj []"] Content None by (simp add: extractAndStore_def)
    next
      case (Some m)
      show ?thesis
      proof (cases "parse m")
        case no_parse: None
        then show ?thesis using Content None Some by (simp add: extractAndStore_def)
      next
        case parsed: (Some d)
        with np None Some have "\<not> is_Obj d" by (simp add: parses_to_object_def)
        then show ?thesis using vs [of d] Content None Some parsed
          by (simp add: extractAndStore_def)
      qed
    qed
  qed
qed

text \<open>
  C7. updateCollectedDataWithLLM never throws: it always returns an agent. When
  the completion call fails, or its response has no text, or no JSON object can
  be parsed from the text, the agent it returns is the agent it was given (for an
  agent with the constructor's field names).
\<close>

theorem C7_extraction_failure_swallowed:
  "(\<exists>a'. updateCollectedDataWithLLM parse clk a response = Inr a') \<and>
   (schema_keys a \<longrightarrow>
      (response = CallThrows \<or> response = NoContent \<or>
       (\<exists>content. response = Content content \<and> \<not> parses_to_object parse content)) \<longrightarrow>
      updateCollectedDataWithLLM parse clk a response = Inr a)"
proof (intro conjI impI)
  show "\<exists>a'. updateCollectedDataWithLLM parse clk a response = Inr a'"
    by (simp add: updateWithLLM_eq)
next
  assume "schema_keys a" and "response = CallThrows \<or> response = NoContent \<or>
       (\<exists>content. response = Content content \<and> \<not> parses_to_object parse content)"
  then have "fst (extractAndStore parse clk a response) = a"
    by (rule extractAndStore_failure)
  then show "updateCollectedDataWithLLM parse clk a response = Inr a"
    by (simp add: updateWithLLM_eq)
qed

theorem C7_extraction_failure_swallowed_witness:
  "schema_keys (newAgent 0) \<and>
   \<not> parses_to_object (\<lambda>s. if s = ''[\"John\"]'' then Some (Arr [Str ''John'']) else None)
      '' [\"John\"] '' \<and>
   updateCollectedDataWithLLM (\<lambda>s. if s = ''[\"John\"]'' then Some (Arr [Str ''John'']) else None)
      \<lparr>now = 0, tzOffset = 0\<rparr> (newAgent 0) (Content '' [\"John\"] '') = Inr (newAgent 0) \<and>
   updateCollectedDataWithLLM (\<lambda>s. None)
      \<lparr>now = 0, tzOffset = 0\<rparr> (newAgent 0) CallThrows = Inr (newAgent 0)"
proof -
  let ?parse = "\<lambda>s. if s = ''[\"John\"]'' then Some (Arr [Str ''John'']) else None"
  have s: "schema_keys (newAgent 0)" by code_simp
  have t: "trim '' [\"John\"] '' = ''[\"John\"]''" by code_simp
  have n: "\<not> parses_to_object ?parse '' [\"John\"] ''"
    by (simp add: parses_to_object_def t)
  from C7_extraction_failure_swallowed
    [of ?parse "\<lparr>now = 0, tzOffset = 0\<rparr>" "newAgent 0" "Content '' [\"John\"] ''"] s n
  have 1: "updateCollectedDataWithLLM ?parse \<lparr>now = 0, tzOffset = 0\<rparr> (newAgent 0)
      (Content '' [\"John\"] '') = Inr (newAgent 0)"
    by blast
  from C7_extraction_failure_swallowed
    [of "\<lambda>s. None" "\<lparr>now = 0, tzOffset = 0\<rparr>" "newAgent 0" CallThrows] s
  have 2: "updateCollectedDataWithLLM (\<lambda>s. None) \<lparr>now = 0, tzOffset = 0\<rparr> (newAgent 0)
      CallThrows = Inr (newAgent 0)"
    by blast
  from s n 1 2 show ?thesis by (intro conjI)
qed

section \<open>The contract of validateAndStoreExtractedData\<close>













text \<open>
  A call that throws on the way: the first name is stored, the conversion of the
  second value throws, and the last name is never reached.
\<close>

lemma validateAndStore_throws_midway:
  "validateAndStoreExtractedData \<lparr>now = 0, tzOffset = 0\<rparr> (newAgent 0)
     (Obj [(''firstName'', Str ''John''),
           (''nationality'', Obj [(''toString'', Num ''1'')]),
           (''lastName'', Str ''Smith'')]) =
   ((newAgent 0)\<lparr>collectedData := newCollectedData\<lparr>personal :=
       put (personal newCollectedData) ''firstName'' (Str ''John'')\<rparr>\<rparr>, Some TypeError)"
  by code_simp

section \<open>The completion percentage of a fresh agent\<close>

lemma percentage_personal_complete:
  assumes "schema_keys a" "countNonNull (personal (collectedData a)) = 9"
    "countNonNull (educational (collectedData a)) = 0"
    "countNonNull (professional (collectedData a)) = 0"
    "countNonNull (family (collectedData a)) = 0"
  shows "getCompletionPercentage a = Some 41"
  using assms by (simp add: schema_percentage completedFields_def sections_def)

text \<open>
  C2. The claim holds for the agent with its personal section filled (9 of 22
  fields, 41 percent, by the lemma above), but not for the fresh agent: the two
  confirmation flags are false, which is not null, so getCompletionPercentage counts
  2 of 22 fields and returns 9, not 0.
\<close>

theorem C2_fresh_agent_percentage:
  "getCompletionPercentage (newAgent t) = Some 9"
  by (simp add: getCompletionPercentage_def newAgent_def newCollectedData_def sections_def
      Object_values_def)

section \<open>Reset\<close>

text \<open>
  C1, as the claim states it, fails: reset of the in-progress session s1 answers
  with the identifier s1 itself, and a get-state on s1 afterwards succeeds.
\<close>

theorem C1_reset_same_id_counterexample:
  "snd (resetChat \<lparr>now = 1000, tzOffset = 0\<rparr>
      \<lparr>items = [''s1'' \<mapsto> \<lparr>sessionId = ''s1'', updatedAt = 5, expiresAt = 86400,
          item_collectedData = newCollectedData\<lparr>personal :=
            put (personal newCollectedData) ''firstName'' (Str ''John'')\<rparr>,
          item_currentSection = Personal, completionPercentage = Some 14\<rparr>],
        available = True\<rparr> (Some ''s1'')) =
     successResponse 200 (ChatBody ''s1'' welcomeMessage newCollectedData 0 Personal) \<and>
   statusCode (getState (fst (resetChat \<lparr>now = 1000, tzOffset = 0\<rparr>
      \<lparr>items = [''s1'' \<mapsto> \<lparr>sessionId = ''s1'', updatedAt = 5, expiresAt = 86400,
          item_collectedData = newCollectedData\<lparr>personal :=
            put (personal newCollectedData) ''firstName'' (Str ''John'')\<rparr>,
          item_currentSection = Personal, completionPercentage = Some 14\<rparr>],
        available = True\<rparr> (Some ''s1''))) (Some ''s1'')) = 200"
  by (simp add: resetChat_def deleteChatSession_def saveChatSession_def getState_def
      getChatSession_def Let_def newAgent_def successResponse_def)

text \<open>
  C1, amended. Reset of a session (the table being available) replaces the
  session's record under the same session identifier: the response carries the
  identifier it was given, with completionPercentage 0 and currentSection personal;
  afterwards a get-state on that identifier succeeds and returns the collected data of
  a new agent with currentSection personal; the records of other sessions are as
  before.
\<close>

theorem C1_reset_replaces_session_under_same_id:
  assumes "available db" "sid \<noteq> []"
  shows "snd (resetChat clk db (Some sid)) =
           successResponse 200 (ChatBody sid welcomeMessage newCollectedData 0 Personal) \<and>
         (\<exists>p. getState (fst (resetChat clk db (Some sid))) (Some sid) =
           successResponse 200 (StateBody sid newCollectedData Personal p (now clk))) \<and>
         (\<forall>other. other \<noteq> sid \<longrightarrow>
           items (fst (resetChat clk db (Some sid))) other = items db other)"
proof -
  have c: "collectedData (newAgent (now clk)) = newCollectedData"
    "currentSection (newAgent (now clk)) = Personal"
    by (simp_all add: newAgent_def)
  from assms have 1: "snd (resetChat clk db (Some sid)) =
      successResponse 200 (ChatBody sid welcomeMessage newCollectedData 0 Personal)"
    by (simp add: resetChat_def deleteChatSession_def saveChatSession_def Let_def c)
  from assms have "getState (fst (resetChat clk db (Some sid))) (Some sid) =
      successResponse 200 (StateBody sid newCollectedData Personal
        (getCompletionPercentage (newAgent (now clk))) (now clk))"
    by (simp add: resetChat_def deleteChatSession_def saveChatSession_def getState_def
        getChatSession_def Let_def c)
  then have 2: "\<exists>p. getState (fst (resetChat clk db (Some sid))) (Some sid) =
      successResponse 200 (StateBody sid newCollectedData Personal p (now clk))" ..
  from assms have 3: "\<forall>other. other \<noteq> sid \<longrightarrow>
      items (fst (resetChat clk db (Some sid))) other = items db other"
    by (simp add: resetChat_def deleteChatSession_def saveChatSession_def Let_def)
  from 1 2 3 show ?thesis by (intro conjI)
qed

theorem C1_reset_replaces_session_under_same_id_witness:
  "snd (resetChat \<lparr>now = 2000, tzOffset = 0\<rparr>
      \<lparr>items = [''s2'' \<mapsto> \<lparr>sessionId = ''s2'', updatedAt = 5, expiresAt = 86400,
          item_collectedData = newCollectedData\<lparr>personal :=
            put (personal newCollectedData) ''lastName'' (Str ''Smith'')\<rparr>,
          item_currentSection = Personal, completionPercentage = Some 14\<rparr>],
        available = True\<rparr> (Some ''s2'')) =
     successResponse 200 (ChatBody ''s2'' welcomeMessage newCollectedData 0 Personal) \<and>
   (\<exists>p. getState (fst (resetChat \<lparr>now = 2000, tzOffset = 0\<rparr>
      \<lparr>items = [''s2'' \<mapsto> \<lparr>sessionId = ''s2'', updatedAt = 5, expiresAt = 86400,
          item_collectedData = newCollectedData\<lparr>personal :=
            put (personal newCollectedData) ''lastName'' (Str ''Smith'')\<rparr>,
          item_currentSection = Personal, completionPercentage = Some 14\<rparr>],
        available = True\<rparr> (Some ''s2''))) (Some ''s2'') =
     successResponse 200 (StateBody ''s2'' newCollectedData Personal p 2000))"
proof -
  have av: "available \<lparr>items = [''s2'' \<mapsto> \<lparr>sessionId = ''s2'', updatedAt = 5, expiresAt = 86400,
          item_collectedData = newCollectedData\<lparr>personal :=
            put (personal newCollectedData) ''lastName'' (Str ''Smith'')\<rparr>,
          item_currentSection = Personal, completionPercentage = Some 14\<rparr>],
        available = True\<rparr>" by simp
  have ne: "''s2'' \<noteq> []" by simp
  from C1_reset_replaces_session_under_same_id [OF av ne, of "\<lparr>now = 2000, tzOffset = 0\<rparr>"]
  show ?thesis by simp
qed

section \<open>Date of birth\<close>

text \<open>
  C3. The fourth branch of isValidDateOfBirth is never taken: the function
  without it is the same function, and a string that matches the slash pattern
  (and so not the ISO pattern, tested first) gets the result of the
  \<^verbatim>\<open>DD/MM/YYYY\<close> branch.
\<close>

theorem C3_mdy_branch_unreachable:
  "isValidDateOfBirth_without_mdy clk s = isValidDateOfBirth clk s \<and>
   (rx_test slash_date_rx s \<longrightarrow> \<not> rx_test iso_date_rx s \<longrightarrow>
      isValidDateOfBirth clk s =
        (case split CHR ''/'' s of
           day # month # year # rest \<Rightarrow>
             check_date clk
               (Date_of_fields clk (digits_val year) (digits_val month - 1) (digits_val day))
         | _ \<Rightarrow> False))"
  by (simp add: isValidDateOfBirth_without_mdy_def isValidDateOfBirth_def)

text \<open>
  On 15 February 2028 the string \<^verbatim>\<open>01/03/2010\<close> is rejected: read as day, month,
  year it is 1 March 2010, less than 18 years back, although the parse of the removed
  branch (3 January 2010) would pass the checks.
\<close>

theorem C3_mdy_branch_unreachable_witness:
  "rx_test slash_date_rx ''01/03/2010'' \<and>
   \<not> rx_test iso_date_rx ''01/03/2010'' \<and>
   \<not> isValidDateOfBirth \<lparr>now = 1834221600000, tzOffset = 0\<rparr> ''01/03/2010'' \<and>
   \<not> check_date \<lparr>now = 1834221600000, tzOffset = 0\<rparr>
       (Date_of_fields \<lparr>now = 1834221600000, tzOffset = 0\<rparr> 2010 2 1) \<and>
   check_date \<lparr>now = 1834221600000, tzOffset = 0\<rparr>
       (Date_parse \<lparr>now = 1834221600000, tzOffset = 0\<rparr> ''01/03/2010'')"
proof -
  let ?clk = "\<lparr>now = 1834221600000, tzOffset = 0\<rparr>"
  have m: "rx_test slash_date_rx ''01/03/2010''" by code_simp
  have i: "\<not> rx_test iso_date_rx ''01/03/2010''" by code_simp
  have s: "split CHR ''/'' ''01/03/2010'' = [''01'', ''03'', ''2010'']" by code_simp
  have v: "digits_val ''2010'' = 2010" "digits_val ''03'' - 1 = 2" "digits_val ''01'' = 1"
    by code_simp+
  have c: "\<not> check_date ?clk (Date_of_fields ?clk 2010 2 1)" by code_simp
  have p: "check_date ?clk (Date_parse ?clk ''01/03/2010'')" by code_simp
  from C3_mdy_branch_unreachable [of ?clk "''01/03/2010''", THEN conjunct2, rule_format, OF m i]
  have "isValidDateOfBirth ?clk ''01/03/2010'' = check_date ?clk (Date_of_fields ?clk 2010 2 1)"
    by (simp add: s v)
  with c have "\<not> isValidDateOfBirth ?clk ''01/03/2010''" by simp
  with m i c p show ?thesis by (intro conjI)
qed

text \<open>
  C4. On 29 February 2028, 10:00 UTC, with local time UTC, the date of birth
  2010-03-01 is accepted, one day before the eighteenth birthday: 29 February
  does not exist in 2010, so the date 18 years before today carries over to
  1 March 2010, 10:00, and the date of birth (1 March 2010, 0:00) is not after it.
\<close>

theorem C4_under_18_accepted_on_leap_day:
  "YearFromTime 1835431200000 = 2028 \<and> MonthFromTime 1835431200000 = 1 \<and>
   DateFromTime 1835431200000 = 29 \<and>
   Date_parse \<lparr>now = 1835431200000, tzOffset = 0\<rparr> ''2010-03-01'' =
     Some (MakeDate (MakeDay 2010 2 1) 0) \<and>
   years_ago \<lparr>now = 1835431200000, tzOffset = 0\<rparr> 18 =
     Some (MakeDate (MakeDay 2010 2 1) 36000000) \<and>
   isValidDateOfBirth \<lparr>now = 1835431200000, tzOffset = 0\<rparr> ''2010-03-01''"
  by code_simp

end
